theory Spec2Isabelle
  imports Complex_Main
begin

chapter \<open>A shallow embedding of biominserter (Motif.cpp, rna.cpp, MOIP.cpp)\<close>

text \<open>
  Conventions of the embedding.
  \<^item> C++ exceptions, failed assertions and reads outside a vector or outside an
    energy table are values of \<open>cpp_error\<close>; a function that can raise returns
    \<open>cpp_error + 'a\<close>.
  \<^item> \<open>float\<close> and \<open>double\<close> quantities are idealised as \<open>real\<close>: sums, products,
    quotients and \<open>exp\<close> are exact. Rounding, overflow to infinity and NaN are outside
    of the model.
  \<^item> Class members keep their C++ names as far as Isabelle admits them: an
    identifier cannot end with an underscore, and record fields are global constants, so
    the member \<open>comp\<close> of \<open>Motif\<close> is \<open>Motif_comp\<close>, \<open>score_\<close> is \<open>Motif_score\<close>,
    \<open>pareto_\<close> of \<open>MOIP\<close> is \<open>MOIP_pareto\<close>, and so on.
\<close>

section \<open>Part I: the program\<close>

datatype cpp_error =
    invalid_argument      \<comment> \<open>thrown by \<open>std::stoi\<close>: no conversion could be performed\<close>
  | out_of_range          \<comment> \<open>thrown by \<open>std::stoi\<close>: the value does not fit an \<open>int\<close>\<close>
  | index_out_of_bounds   \<comment> \<open>\<open>v[i]\<close> with \<open>i \<ge> v.size()\<close>: undefined behaviour in C++\<close>
  | assertion_failed      \<comment> \<open>a failing \<open>assert\<close>\<close>
  | exit_failure          \<comment> \<open>a call of \<open>exit\<close> with a nonzero status\<close>
  | empty_handle          \<comment> \<open>a solver object that was declared and never assigned is used\<close>
  | division_by_zero      \<comment> \<open>a \<open>float\<close> quotient with denominator 0: an infinity or a NaN\<close>

text \<open>\<open>v[i]\<close> on a \<open>std::vector\<close>: defined only below \<open>v.size()\<close>.\<close>

definition vec_at :: "'a list \<Rightarrow> nat \<Rightarrow> cpp_error + 'a" where
  "vec_at v i = (if i < length v then Inr (v ! i) else Inl index_out_of_bounds)"

subsection \<open>Motif.cpp: components, links and motifs\<close>

record Component =
  Component_pos :: "nat \<times> nat"
  Component_k :: nat
  Component_seq :: string

record Link =
  Link_nts :: "int \<times> int"
  Link_long_range :: bool

datatype source_t = RNA3DMOTIF | RNAMOTIFATLAS | CARNAVAL

record Motif =
  Motif_comp :: "Component list"
  Motif_links :: "Link list"
  atlas_id :: string
  carnaval_id :: string
  PDBID :: string
  Motif_score :: real
  Motif_reversed :: bool
  Motif_is_model :: bool
  Motif_source :: source_t

text \<open>\<open>Motif::get_identifier\<close>: the \<open>switch\<close> on the provenance tag.\<close>

fun get_identifier :: "Motif \<Rightarrow> string" where
  "get_identifier m =
     (case Motif_source m of
        RNAMOTIFATLAS \<Rightarrow> atlas_id m
      | CARNAVAL \<Rightarrow> ''RIN'' @ carnaval_id m
      | RNA3DMOTIF \<Rightarrow> PDBID m)"

text \<open>\<open>operator==\<close> and \<open>operator!=\<close> on components compare the two bounds only.\<close>

definition Component_eq :: "Component \<Rightarrow> Component \<Rightarrow> bool" where
  "Component_eq c1 c2 =
     (if fst (Component_pos c1) \<noteq> fst (Component_pos c2) then False
      else if snd (Component_pos c1) \<noteq> snd (Component_pos c2) then False
      else True)"

definition Component_neq :: "Component \<Rightarrow> Component \<Rightarrow> bool" where
  "Component_neq c1 c2 = (\<not> Component_eq c1 c2)"

text \<open>
  The loop of \<open>operator==(const Motif&, const Motif&)\<close>, run on the indices it still has
  to visit: \<open>for (uint i = 0; i < m1.comp.size(); i++) if (m1.comp[i] != m2.comp[i]) return false;\<close>.
  Each of the two reads goes through \<open>vec_at\<close>.
\<close>

fun Motif_eq_loop :: "Component list \<Rightarrow> Component list \<Rightarrow> nat list \<Rightarrow> cpp_error + bool" where
  "Motif_eq_loop c1 c2 [] = Inr True"
| "Motif_eq_loop c1 c2 (i # rest) =
     (case vec_at c1 i of
        Inl e \<Rightarrow> Inl e
      | Inr a \<Rightarrow>
          (case vec_at c2 i of
             Inl e \<Rightarrow> Inl e
           | Inr b \<Rightarrow> if Component_neq a b then Inr False else Motif_eq_loop c1 c2 rest))"

definition Motif_eq :: "Motif \<Rightarrow> Motif \<Rightarrow> cpp_error + bool" where
  "Motif_eq m1 m2 =
     (if get_identifier m1 \<noteq> get_identifier m2 then Inr False
      else if Motif_score m1 \<noteq> Motif_score m2 then Inr False
      else if Motif_reversed m1 \<noteq> Motif_reversed m2 then Inr False
      else Motif_eq_loop (Motif_comp m1) (Motif_comp m2) [0 ..< length (Motif_comp m1)])"

text \<open>Two inputs of \<open>operator==\<close>: the same site, the second with its last component missing.\<close>

definition site_two :: Motif where
  "site_two =
     \<lparr> Motif_comp =
         [\<lparr> Component_pos = (1, 5), Component_k = 5, Component_seq = [] \<rparr>,
          \<lparr> Component_pos = (10, 15), Component_k = 6, Component_seq = [] \<rparr>],
       Motif_links = [], atlas_id = ''IL_1'', carnaval_id = [], PDBID = [],
       Motif_score = 10, Motif_reversed = False, Motif_is_model = True, Motif_source = RNAMOTIFATLAS \<rparr>"

definition site_one :: Motif where
  "site_one = site_two \<lparr> Motif_comp := [\<lparr> Component_pos = (1, 5), Component_k = 5, Component_seq = [] \<rparr>] \<rparr>"

subsection \<open>Motif.cpp: the links line of a Carnaval RIN file\<close>

text \<open>
  \<open>std::stoi\<close> in base 10: leading white space is skipped, one sign is read, then the
  longest run of digits; what follows is ignored. No digit: \<open>invalid_argument\<close>; a value
  outside of \<open>int\<close>: \<open>out_of_range\<close>.
\<close>

definition isspace :: "char \<Rightarrow> bool" where
  "isspace c = (c \<in> set [CHR '' '', CHR 0x09, CHR 0x0A, CHR 0x0B, CHR 0x0C, CHR 0x0D])"

definition isdigit :: "char \<Rightarrow> bool" where
  "isdigit c = (c \<in> set ''0123456789'')"

definition digits_value :: "string \<Rightarrow> int" where
  "digits_value ds = foldl (\<lambda>acc c. 10 * acc + (int (of_char c) - 48)) 0 ds"

definition stoi :: "string \<Rightarrow> cpp_error + int" where
  "stoi str =
     (let s1 = dropWhile isspace str;
          neg = (s1 \<noteq> [] \<and> hd s1 = CHR ''-'');
          s2 = (if s1 \<noteq> [] \<and> (hd s1 = CHR ''-'' \<or> hd s1 = CHR ''+'') then tl s1 else s1);
          ds = takeWhile isdigit s2;
          v = (if neg then - digits_value ds else digits_value ds)
      in if ds = [] then Inl invalid_argument
         else if v < - 2147483648 \<or> 2147483647 < v then Inl out_of_range
         else Inr v)"

text \<open>
  \<open>s.find(c)\<close>: the position of the first \<open>c\<close>, or \<open>npos\<close> (here \<open>None\<close>).
  \<open>s.substr(0, index)\<close> is the whole string when \<open>index\<close> is \<open>npos\<close>.
  \<open>s.erase(0, index + 1)\<close> erases nothing when \<open>index\<close> is \<open>npos\<close>: \<open>npos\<close> is the
  largest \<open>size_t\<close>, and \<open>npos + 1\<close> wraps to \<open>0\<close>.
\<close>

fun find_char :: "char \<Rightarrow> string \<Rightarrow> nat option" where
  "find_char c [] = None"
| "find_char c (x # xs) = (if x = c then Some 0 else map_option Suc (find_char c xs))"

definition substr0 :: "string \<Rightarrow> nat option \<Rightarrow> string" where
  "substr0 s idx = (case idx of None \<Rightarrow> s | Some i \<Rightarrow> take i s)"

definition erase0 :: "string \<Rightarrow> nat option \<Rightarrow> string" where
  "erase0 s idx = (case idx of None \<Rightarrow> s | Some i \<Rightarrow> drop (i + 1) s)"

text \<open>
  One pass through the body of \<open>while (line != "")\<close> in
  \<open>Motif::Motif(const vector<Component>&, path, uint, bool)\<close>: the link that is pushed
  to \<open>links_\<close> and what is left of \<open>line\<close>, or the exception of \<open>stoi\<close>.
\<close>

definition links_body :: "string \<Rightarrow> cpp_error + (Link \<times> string)" where
  "links_body line =
     (let index = find_char CHR '';'' line;
          link_str = substr0 line index;
          line' = erase0 line index;
          sub_index = find_char CHR '','' link_str;
          nt_str = substr0 link_str sub_index;
          link_str = erase0 link_str sub_index
      in case stoi nt_str of
           Inl e \<Rightarrow> Inl e
         | Inr first \<Rightarrow>
             (let sub_index = find_char CHR '','' link_str;
                  nt_str = substr0 link_str sub_index;
                  link_str = erase0 link_str sub_index
              in case stoi nt_str of
                   Inl e \<Rightarrow> Inl e
                 | Inr second \<Rightarrow>
                     Inr (\<lparr> Link_nts = (first, second), Link_long_range = (link_str = ''True'') \<rparr>,
                          line')))"

text \<open>
  The loop itself. It may run forever, so it is a partial function: \<open>None\<close> is "no
  result", \<open>Some (Inl e)\<close> an exception that leaves the constructor, \<open>Some (Inr links)\<close>
  the normal exit with the value of \<open>links_\<close>.
\<close>

partial_function (option) links_loop :: "string \<Rightarrow> Link list \<Rightarrow> (cpp_error + Link list) option" where
  "links_loop line links =
     (if line = [] then Some (Inr links)
      else (case links_body line of
              Inl e \<Rightarrow> Some (Inl e)
            | Inr (link, line') \<Rightarrow> links_loop line' (links @ [link])))"

declare links_loop.simps [code]

text \<open>A links line whose records all end with \<open>;\<close>: empty, or with \<open>;\<close> as last character.\<close>

definition terminated :: "string \<Rightarrow> bool" where
  "terminated line = (line = [] \<or> last line = CHR '';'')"


subsection \<open>rna.cpp: nucleotides, pair types and energy parameters\<close>

datatype base_t = BASE_N | BASE_A | BASE_C | BASE_G | BASE_U

text \<open>
  The values of the enumerators. The header that declares \<open>base_t\<close> is not among the
  sources; the code indexes the four-entry tables with \<open>b - 1\<close> for the bases A, C, G, U
  (\<open>load_default_parameters\<close>) and with \<open>BASE_N\<close> itself (\<open>GIL_mismatch(i, j)\<close>), so
  \<open>BASE_N\<close> is \<open>0\<close> and the four bases are \<open>1\<close> to \<open>4\<close>.
\<close>

fun base_value :: "base_t \<Rightarrow> int" where
  "base_value BASE_N = 0"
| "base_value BASE_A = 1"
| "base_value BASE_C = 2"
| "base_value BASE_G = 3"
| "base_value BASE_U = 4"

datatype pair_t = PAIR_AU | PAIR_CG | PAIR_GC | PAIR_UA | PAIR_GU | PAIR_UG | PAIR_OTHER

text \<open>\<open>RNA::base_type\<close>.\<close>

definition base_type :: "char \<Rightarrow> base_t" where
  "base_type x =
     (if x = CHR ''a'' \<or> x = CHR ''A'' then BASE_A
      else if x = CHR ''c'' \<or> x = CHR ''C'' then BASE_C
      else if x = CHR ''g'' \<or> x = CHR ''G'' then BASE_G
      else if x = CHR ''u'' \<or> x = CHR ''U'' then BASE_U
      else BASE_N)"

text \<open>
  \<open>pair_map\<close> as the constructor of \<open>RNA\<close> fills it: \<open>PAIR_OTHER\<close> everywhere, then the
  six entries.
\<close>

definition pair_map :: "base_t \<Rightarrow> base_t \<Rightarrow> pair_t" where
  "pair_map x y =
     (if x = BASE_A \<and> y = BASE_U then PAIR_AU
      else if x = BASE_U \<and> y = BASE_A then PAIR_UA
      else if x = BASE_C \<and> y = BASE_G then PAIR_CG
      else if x = BASE_G \<and> y = BASE_C then PAIR_GC
      else if x = BASE_G \<and> y = BASE_U then PAIR_GU
      else if x = BASE_U \<and> y = BASE_G then PAIR_UG
      else PAIR_OTHER)"

text \<open>
  The energy parameters \<open>nrjp_\<close>. The tables are loaded from \<open>thermo_params\<close>,
  \<open>triloops\<close> and \<open>tetraloops\<close> of a header that is not among the sources, so their
  entries are parameters of the model: each table is a function of its indices. A base
  index is an \<open>int\<close>, since the code computes it as \<open>bseq_[k] - 1\<close>. Which indices are
  inside a table is said where the tables are read, below.
\<close>

record nrjp =
  nrjp_stack37 :: "pair_t \<Rightarrow> pair_t \<Rightarrow> real"
  nrjp_hairpin37 :: "int \<Rightarrow> real"
  nrjp_bulge37 :: "int \<Rightarrow> real"
  nrjp_interior37 :: "int \<Rightarrow> real"
  nrjp_asymmetry_penalty :: "int \<Rightarrow> real"
  nrjp_max_asymmetry :: real
  nrjp_mismatch_hairpin37 :: "int \<Rightarrow> int \<Rightarrow> pair_t \<Rightarrow> real"
  nrjp_mismatch_interior37 :: "int \<Rightarrow> int \<Rightarrow> pair_t \<Rightarrow> real"
  nrjp_a1 :: real
  nrjp_a2 :: real
  nrjp_a3 :: real
  nrjp_at_penalty :: real
  nrjp_int11_37 :: "pair_t \<Rightarrow> pair_t \<Rightarrow> int \<Rightarrow> int \<Rightarrow> real"
  nrjp_int22_37 :: "pair_t \<Rightarrow> pair_t \<Rightarrow> int \<Rightarrow> int \<Rightarrow> int \<Rightarrow> int \<Rightarrow> real"
  nrjp_int21_37 :: "pair_t \<Rightarrow> int \<Rightarrow> int \<Rightarrow> pair_t \<Rightarrow> int \<Rightarrow> real"
  nrjp_polyC_penalty :: real
  nrjp_polyC_slope :: real
  nrjp_polyC_int :: real
  nrjp_pk_stack_span :: real
  nrjp_pk_interior_span :: real
  nrjp_salt_correction :: real
  nrjp_loop_greater30 :: real
  nrjp_hairpin_GGG :: real
  nrjp_triloop37 :: "int \<Rightarrow> int \<Rightarrow> int \<Rightarrow> int \<Rightarrow> int \<Rightarrow> real"
  nrjp_tloop37 :: "int \<Rightarrow> int \<Rightarrow> int \<Rightarrow> int \<Rightarrow> int \<Rightarrow> int \<Rightarrow> real"

text \<open>
  The members of \<open>RNA\<close> that the energy functions and the recursions read: \<open>seq_\<close> is the
  input string as it was given, \<open>bseq_\<close> its nucleotide codes, \<open>n_\<close> its length. \<open>RNA_RT\<close>
  is not a member: it is the value of \<open>kB * AVOGADRO * (ZERO_C_IN_KELVIN + 37.0)\<close>, the
  local \<open>RT\<close> of the recursions, whose three constants the missing header defines.
\<close>

record RNA =
  RNA_name :: string
  RNA_seq :: string
  RNA_bseq :: "base_t list"
  RNA_n :: nat
  RNA_nrjp :: nrjp
  RNA_RT :: real

text \<open>
  The constructor \<open>RNA::RNA(name, seq)\<close> up to the call that computes the pairing
  probabilities. The loop rewrites \<open>T\<close> to \<open>U\<close> in its own copy \<open>c\<close> of each character:
  \<open>seq_\<close> keeps the input, \<open>bseq_\<close> gets the codes. \<open>tables\<close> stands for what
  \<open>load_default_parameters\<close> reads from the parameter header and \<open>rt\<close> for the value of
  \<open>RT\<close>; the three assignments before that call are not overwritten by it, the two
  spans are set in it.
\<close>

definition RNA_new :: "string \<Rightarrow> string \<Rightarrow> nrjp \<Rightarrow> real \<Rightarrow> RNA" where
  "RNA_new name seq tables rt =
     \<lparr> RNA_name = name,
       RNA_seq = seq,
       RNA_bseq = map (\<lambda>c. base_type (if c = CHR ''T'' \<or> c = CHR ''t'' then CHR ''U'' else c)) seq,
       RNA_n = length seq,
       RNA_nrjp = tables \<lparr> nrjp_salt_correction := 0, nrjp_loop_greater30 := 1.079,
                           nrjp_hairpin_GGG := 0, nrjp_pk_stack_span := 1,
                           nrjp_pk_interior_span := 1 \<rparr>,
       RNA_RT = rt \<rparr>"

text \<open>
  Modelled from the spec: \<open>pair_type(i, j)\<close> is declared in the missing header; the spec
  has the pair type "derived from an ordered nucleotide pair", and \<open>pair_map\<close> is the
  table the constructor builds for it.
\<close>

definition pair_type :: "RNA \<Rightarrow> nat \<Rightarrow> nat \<Rightarrow> pair_t" where
  "pair_type r i j = pair_map (RNA_bseq r ! i) (RNA_bseq r ! j)"

text \<open>The base index \<open>bseq_[k] - 1\<close>.\<close>

definition bidx :: "RNA \<Rightarrow> nat \<Rightarrow> int" where
  "bidx r k = base_value (RNA_bseq r ! k) - 1"

text \<open>
  Subtraction of two \<open>uint\<close> values (both below \<open>2^32\<close>): the result wraps modulo
  \<open>2^32\<close> when the second is the larger one.
\<close>

definition uint_sub :: "nat \<Rightarrow> nat \<Rightarrow> nat" where
  "uint_sub a b = (if b \<le> a then a - b else a + 4294967296 - b)"

text \<open>\<open>RNA::allowed_basepair\<close>: the three tests are on positions only.\<close>

definition RNA_allowed_basepair :: "RNA \<Rightarrow> nat \<Rightarrow> nat \<Rightarrow> bool" where
  "RNA_allowed_basepair r u v =
     (let a = (if v > u then u else v);
          b = (if v > u then v else u)
      in if b - a < 4 then False
         else if a \<ge> uint_sub (RNA_n r) 4 then False
         else if b \<ge> RNA_n r then False
         else True)"

definition Gpenalty :: "RNA \<Rightarrow> nat \<Rightarrow> nat \<Rightarrow> real" where
  "Gpenalty r i j =
     (if pair_type r i j = PAIR_AU \<or> pair_type r i j = PAIR_UA then nrjp_at_penalty (RNA_nrjp r) else 0)"

text \<open>
  The first loop of \<open>RNA::GHL\<close>:
  \<open>for (uint k = i + 1; k < j; ++k) if (seq_[k] != BASE_C) { polyC = false; break; }\<close>.
  It reads the character string \<open>seq_\<close>, not the codes \<open>bseq_\<close>, and compares the
  character (promoted to \<open>int\<close>) with the enumerator.
\<close>

definition GHL_polyC :: "RNA \<Rightarrow> nat \<Rightarrow> nat \<Rightarrow> bool" where
  "GHL_polyC r i j = list_all (\<lambda>k. \<not> (int (of_char (RNA_seq r ! k)) \<noteq> base_value BASE_C)) [i + 1 ..< j]"

text \<open>
  Reads of the energy tables. The header that declares the tables is not among the
  sources; their extents are the ones that \<open>load_default_parameters\<close> fills: 30 loop
  lengths for \<open>hairpin37\<close>, \<open>bulge37\<close> and \<open>interior37\<close>, 4 entries for
  \<open>asymmetry_penalty\<close>, the 4 base indices \<open>0\<close> to \<open>3\<close> (\<open>std::fill\<close> gives \<open>triloop37\<close>
  its \<open>4 * 4 * 4 * 4 * 4\<close> entries) and the 6 pair types of the array \<open>p\<close>. A read at
  another index is a read outside of the table: the base index \<open>-1\<close> of an unknown
  nucleotide, and the pair type \<open>PAIR_OTHER\<close>.
\<close>

definition len_in :: "int \<Rightarrow> bool" where
  "len_in k = (0 \<le> k \<and> k < 30)"

definition asym_in :: "int \<Rightarrow> bool" where
  "asym_in k = (0 \<le> k \<and> k < 4)"

definition base_in :: "int \<Rightarrow> bool" where
  "base_in b = (0 \<le> b \<and> b < 4)"

definition pair_in :: "pair_t \<Rightarrow> bool" where
  "pair_in p = (p \<noteq> PAIR_OTHER)"

definition tab :: "bool \<Rightarrow> real \<Rightarrow> cpp_error + real" where
  "tab inside v = (if inside then Inr v else Inl index_out_of_bounds)"

text \<open>Sequencing of computations that can fail.\<close>

definition bindE :: "cpp_error + 'a \<Rightarrow> ('a \<Rightarrow> cpp_error + 'b) \<Rightarrow> cpp_error + 'b" where
  "bindE x f = (case x of Inl err \<Rightarrow> Inl err | Inr v \<Rightarrow> f v)"

text \<open>\<open>RNA::GHL\<close>, the energy of the hairpin loop closed by \<open>(i, j)\<close>.\<close>

definition GHL :: "RNA \<Rightarrow> nat \<Rightarrow> nat \<Rightarrow> cpp_error + real" where
  "GHL r i j =
     (let p = RNA_nrjp r;
          polyC = GHL_polyC r i j;
          size = int j - int i - 1
      in if \<not> size \<ge> 3 then Inl assertion_failed
         else if \<not> RNA_allowed_basepair r i j then Inl assertion_failed
         else
           bindE (if size \<le> 30 then tab (len_in (size - 1)) (nrjp_hairpin37 p (size - 1))
                  else tab (len_in (30 - 1))
                         (nrjp_hairpin37 p (30 - 1) + nrjp_loop_greater30 p * ln (real_of_int size / 30)))
             (\<lambda>h.
                let e = 0 + h
                in if size = 3 then
                     let e = e + Gpenalty r i j
                     in bindE (tab (base_in (bidx r i) \<and> base_in (bidx r (i + 1)) \<and>
                                    base_in (bidx r (i + 2)) \<and> base_in (bidx r (j - 1)) \<and>
                                    base_in (bidx r j))
                                 (nrjp_triloop37 p (bidx r i) (bidx r (i + 1)) (bidx r (i + 2))
                                    (bidx r (j - 1)) (bidx r j)))
                          (\<lambda>tl.
                             let e = e + tl;
                                 e = (if polyC then e + nrjp_polyC_penalty p else e);
                                 e = (if RNA_bseq r ! (i + 1) = BASE_G \<and> RNA_bseq r ! (i + 2) = BASE_G \<and>
                                         RNA_bseq r ! (j - 1) = BASE_G
                                      then e + nrjp_hairpin_GGG p else e)
                             in Inr e)
                   else if size = 4 then
                     bindE (tab (base_in (bidx r i) \<and> base_in (bidx r (i + 1)) \<and>
                                 base_in (bidx r (i + 2)) \<and> base_in (bidx r (j - 2)) \<and>
                                 base_in (bidx r (j - 1)) \<and> base_in (bidx r j))
                              (nrjp_tloop37 p (bidx r i) (bidx r (i + 1)) (bidx r (i + 2))
                                 (bidx r (j - 2)) (bidx r (j - 1)) (bidx r j)))
                       (\<lambda>tl.
                          bindE (tab (base_in (bidx r (i + 1)) \<and> base_in (bidx r (j - 1)) \<and>
                                      pair_in (pair_type r i j))
                                   (nrjp_mismatch_hairpin37 p (bidx r (i + 1)) (bidx r (j - 1))
                                      (pair_type r i j)))
                            (\<lambda>mm.
                               let e = e + tl;
                                   e = e + mm;
                                   e = (if polyC then e + nrjp_polyC_slope p * real_of_int size +
                                                     nrjp_polyC_int p else e)
                               in Inr e))
                   else
                     bindE (tab (base_in (bidx r (i + 1)) \<and> base_in (bidx r (j - 1)) \<and>
                                 pair_in (pair_type r i j))
                              (nrjp_mismatch_hairpin37 p (bidx r (i + 1)) (bidx r (j - 1))
                                 (pair_type r i j)))
                       (\<lambda>mm.
                          let e = e + mm;
                              e = (if polyC then e + nrjp_polyC_slope p * real_of_int size +
                                                nrjp_polyC_int p else e)
                          in Inr e)))"

subsection \<open>MOIP.cpp: decision variables, expressions and the model\<close>

text \<open>
  The solver library is an external collaborator. What the code builds with it is
  modelled as data: a decision variable is an entry of \<open>insertion_dv_\<close> or of
  \<open>basepair_dv_\<close>; an \<open>IloExpr\<close> is a constant and a list of terms
  \<open>coefficient * variable\<close>, in the order in which \<open>+=\<close> and \<open>-=\<close> add them; the model
  \<open>model_\<close> is the list of what \<open>model_.add\<close> has added and \<open>model_.remove\<close> has not
  taken out.
\<close>

datatype dvar = insertion_dv nat | basepair_dv nat

type_synonym IloExpr = "real \<times> (real \<times> dvar) list"

datatype IloItem =
    IloMaximize IloExpr
  | IloRange real IloExpr real      \<comment> \<open>\<open>IloRange(env, lo, e, hi)\<close>: \<open>lo \<le> e \<le> hi\<close>\<close>
  | IloLe IloExpr IloExpr           \<comment> \<open>\<open>e1 <= e2\<close>\<close>
  | IloGe IloExpr IloExpr           \<comment> \<open>\<open>e1 >= e2\<close>\<close>
  | IloEq IloExpr IloExpr           \<comment> \<open>\<open>e1 == e2\<close>\<close>

definition expr_num :: "real \<Rightarrow> IloExpr" where
  "expr_num c = (c, [])"

definition expr_var :: "dvar \<Rightarrow> IloExpr" where
  "expr_var x = (0, [(1, x)])"

definition expr_scaled :: "real \<Rightarrow> dvar \<Rightarrow> IloExpr" where
  "expr_scaled c x = (0, [(c, x)])"

text \<open>\<open>e += f\<close> and \<open>e -= x\<close> for a variable \<open>x\<close>.\<close>

definition expr_plus :: "IloExpr \<Rightarrow> IloExpr \<Rightarrow> IloExpr" where
  "expr_plus e f = (fst e + fst f, snd e @ snd f)"

definition expr_minus_var :: "IloExpr \<Rightarrow> dvar \<Rightarrow> IloExpr" where
  "expr_minus_var e x = (fst e, snd e @ [(- 1, x)])"

text \<open>\<open>IloNum(1) - x\<close>\<close>

definition expr_one_minus :: "dvar \<Rightarrow> IloExpr" where
  "expr_one_minus x = (1, [(- 1, x)])"

text \<open>The sum of a list of variables, added one by one to an empty expression.\<close>

definition expr_sum_vars :: "dvar list \<Rightarrow> IloExpr" where
  "expr_sum_vars xs = foldl (\<lambda>e x. expr_plus e (expr_var x)) (expr_num 0) xs"

text \<open>
  A solution of the solver gives each Boolean decision variable one of its two values;
  \<open>cplex_.getValue\<close> returns it as the number \<open>0\<close> or \<open>1\<close>, and the value of an
  expression is computed from these.
\<close>

type_synonym solution = "dvar \<Rightarrow> bool"

definition getValue :: "solution \<Rightarrow> dvar \<Rightarrow> real" where
  "getValue a x = (if a x then 1 else 0)"

definition getValue_expr :: "solution \<Rightarrow> IloExpr \<Rightarrow> real" where
  "getValue_expr a e = fst e + sum_list (map (\<lambda>t. fst t * getValue a (snd t)) (snd e))"

fun satisfies :: "solution \<Rightarrow> IloItem \<Rightarrow> bool" where
  "satisfies a (IloMaximize e) = True"
| "satisfies a (IloRange lo e hi) = (lo \<le> getValue_expr a e \<and> getValue_expr a e \<le> hi)"
| "satisfies a (IloLe e f) = (getValue_expr a e \<le> getValue_expr a f)"
| "satisfies a (IloGe e f) = (getValue_expr a e \<ge> getValue_expr a f)"
| "satisfies a (IloEq e f) = (getValue_expr a e = getValue_expr a f)"

definition feasible :: "IloItem list \<Rightarrow> solution \<Rightarrow> bool" where
  "feasible items a = list_all (satisfies a) items"

text \<open>
  Modelled from the spec: the class \<open>SecondaryStructure\<close> is not among the sources. A
  structure carries the flag \<open>is_empty_structure\<close> (set by \<open>SecondaryStructure(true)\<close>),
  the inserted motifs, the base pairs and the two objective scores, and \<open>s > t\<close> is
  dominance as the spec defines it: "a structure s dominates t iff obj1(s) \<ge> obj1(t) \<and>
  obj2(s) \<ge> obj2(t) with at least one strict inequality".
\<close>

record SecondaryStructure =
  is_empty_structure :: bool
  SS_motif_info :: "Motif list"
  SS_basepairs :: "(nat \<times> nat) list"
  SS_objective_score1 :: real
  SS_objective_score2 :: real

definition SS_empty :: SecondaryStructure where
  "SS_empty = \<lparr> is_empty_structure = True, SS_motif_info = [], SS_basepairs = [],
                SS_objective_score1 = 0, SS_objective_score2 = 0 \<rparr>"

definition SS_new :: SecondaryStructure where
  "SS_new = SS_empty \<lparr> is_empty_structure := False \<rparr>"

definition get_objective_score :: "SecondaryStructure \<Rightarrow> int \<Rightarrow> real" where
  "get_objective_score s i = (if i = 1 then SS_objective_score1 s else SS_objective_score2 s)"

definition SS_gt :: "SecondaryStructure \<Rightarrow> SecondaryStructure \<Rightarrow> bool" where
  "SS_gt s t =
     (get_objective_score s 1 \<ge> get_objective_score t 1 \<and>
      get_objective_score s 2 \<ge> get_objective_score t 2 \<and>
      (get_objective_score s 1 > get_objective_score t 1 \<or>
       get_objective_score s 2 > get_objective_score t 2))"

record MOIP =
  MOIP_n :: nat                              \<comment> \<open>\<open>rna_.get_RNA_length()\<close>\<close>
  MOIP_pij :: "nat \<Rightarrow> nat \<Rightarrow> real"            \<comment> \<open>\<open>rna_.get_pij\<close>\<close>
  MOIP_insertion_sites :: "Motif list"       \<comment> \<open>\<open>insertion_sites_\<close>\<close>
  MOIP_theta :: real                         \<comment> \<open>\<open>theta_\<close>\<close>
  MOIP_n_basepair_dv :: nat                  \<comment> \<open>\<open>basepair_dv_.getSize()\<close>\<close>
  MOIP_n_insertion_dv :: nat                 \<comment> \<open>\<open>insertion_dv_.getSize()\<close>\<close>
  index_of_yuv :: "nat list list"
  index_of_Cxip :: "nat list list"
  index_of_first_components :: "nat list"
  MOIP_model :: "IloItem list"               \<comment> \<open>\<open>model_\<close>\<close>
  MOIP_obj1 :: IloExpr
  MOIP_obj2 :: IloExpr
  MOIP_pareto :: "SecondaryStructure list"   \<comment> \<open>\<open>pareto_\<close>\<close>

text \<open>The mark of a pair that is not a decision variable: \<open>n * n + 1\<close>.\<close>

definition yuv_sentinel :: "nat \<Rightarrow> nat" where
  "yuv_sentinel n = n * n + 1"

definition get_yuv_index :: "MOIP \<Rightarrow> nat \<Rightarrow> nat \<Rightarrow> nat" where
  "get_yuv_index m u v =
     (let a = (if u < v then u else v);
          b = (if u > v then u else v)
      in index_of_yuv m ! a ! (b - 4 - a))"

definition get_Cpxi_index :: "MOIP \<Rightarrow> nat \<Rightarrow> nat \<Rightarrow> nat" where
  "get_Cpxi_index m x_i i_on_j = index_of_Cxip m ! x_i ! i_on_j"

text \<open>
  \<open>MOIP::allowed_basepair\<close>. The row \<open>a\<close> of \<open>index_of_yuv_\<close> is read only after the tests
  on \<open>a\<close> and \<open>b\<close>, which keep the read inside the table.
\<close>

definition allowed_basepair :: "MOIP \<Rightarrow> nat \<Rightarrow> nat \<Rightarrow> bool" where
  "allowed_basepair m u v =
     (let a = (if v > u then u else v);
          b = (if v > u then v else u)
      in if b - a < 4 then False
         else if a \<ge> uint_sub (MOIP_n m) 6 then False
         else if b \<ge> MOIP_n m then False
         else if get_yuv_index m a b = yuv_sentinel (MOIP_n m) then False
         else True)"

text \<open>
  The accessors \<open>y(u, v)\<close> and \<open>C(x, i)\<close> of the missing header \<open>MOIP.h\<close>, as the
  constructor's tables define them: the entry of \<open>basepair_dv_\<close> at \<open>get_yuv_index\<close>, the
  entry of \<open>insertion_dv_\<close> at \<open>get_Cpxi_index\<close>.
\<close>

definition y :: "MOIP \<Rightarrow> nat \<Rightarrow> nat \<Rightarrow> dvar" where
  "y m u v = basepair_dv (get_yuv_index m u v)"

definition C :: "MOIP \<Rightarrow> nat \<Rightarrow> nat \<Rightarrow> dvar" where
  "C m x i = insertion_dv (get_Cpxi_index m x i)"

subsection \<open>MOIP.cpp: the constructor's tables and objectives\<close>

text \<open>
  One row of \<open>index_of_yuv_\<close>: for \<open>v\<close> from \<open>u + 4\<close> below \<open>n\<close>, the running number \<open>c\<close> of
  the pair when \<open>rna_.get_pij(u, v) > theta_\<close> (the variable \<open>y(u, v)\<close> is then added to
  \<open>basepair_dv_\<close> and \<open>c\<close> is incremented), the mark otherwise. The result is the row
  and the counter after it.
\<close>

fun yuv_row :: "(nat \<Rightarrow> nat \<Rightarrow> real) \<Rightarrow> real \<Rightarrow> nat \<Rightarrow> nat \<Rightarrow> nat list \<Rightarrow> nat \<Rightarrow> nat list \<times> nat" where
  "yuv_row pij theta n u [] c = ([], c)"
| "yuv_row pij theta n u (v # vs) c =
     (if pij u v > theta
      then (let (row, c') = yuv_row pij theta n u vs (c + 1) in (c # row, c'))
      else (let (row, c') = yuv_row pij theta n u vs c in (yuv_sentinel n # row, c')))"

fun yuv_rows :: "(nat \<Rightarrow> nat \<Rightarrow> real) \<Rightarrow> real \<Rightarrow> nat \<Rightarrow> nat list \<Rightarrow> nat \<Rightarrow> nat list list \<times> nat" where
  "yuv_rows pij theta n [] c = ([], c)"
| "yuv_rows pij theta n (u # us) c =
     (let (row, c1) = yuv_row pij theta n u [u + 4 ..< n] c;
          (rows, c2) = yuv_rows pij theta n us c1
      in (row # rows, c2))"

text \<open>
  The tables of the variables \<open>C(x, i)\<close>: every component of every site gets the next
  number \<open>i\<close>; \<open>index_of_first_components\<close> holds the number of each site's component 0.
\<close>

fun Cxip_rows :: "Motif list \<Rightarrow> nat \<Rightarrow> nat list list \<times> nat list \<times> nat" where
  "Cxip_rows [] i = ([], [], i)"
| "Cxip_rows (m # ms) i =
     (let row = [i ..< i + length (Motif_comp m)];
          (rows, firsts, i') = Cxip_rows ms (i + length (Motif_comp m))
      in (row # rows, i # firsts, i'))"

text \<open>
  \<open>obj1\<close>: the score of each site times the variable of its first component.
  \<open>obj2\<close>: \<open>p(u, v) * y(u, v)\<close> over the allowed pairs, \<open>u\<close> below \<open>n - 6\<close>, \<open>v\<close> from
  \<open>u + 4\<close> below \<open>n\<close>.
\<close>

definition build_obj1 :: "MOIP \<Rightarrow> IloExpr" where
  "build_obj1 m =
     foldl (\<lambda>e i. expr_plus e
              (expr_scaled (Motif_score (MOIP_insertion_sites m ! i))
                 (insertion_dv (index_of_first_components m ! i))))
       (expr_num 0) [0 ..< length (MOIP_insertion_sites m)]"

definition moip_pairs :: "MOIP \<Rightarrow> (nat \<times> nat) list" where
  "moip_pairs m =
     concat (map (\<lambda>u. map (\<lambda>v. (u, v)) [u + 4 ..< MOIP_n m]) [0 ..< uint_sub (MOIP_n m) 6])"

definition build_obj2 :: "MOIP \<Rightarrow> IloExpr" where
  "build_obj2 m =
     foldl (\<lambda>e (u, v). if allowed_basepair m u v
                        then expr_plus e (expr_scaled (MOIP_pij m u v) (y m u v)) else e)
       (expr_num 0) (moip_pairs m)"

subsection \<open>MOIP.cpp: \<open>define_problem_constraints\<close>\<close>

text \<open>At most one pairing by nucleotide: one constraint for \<open>u\<close>, when \<open>count > 1\<close>.\<close>

definition constraint_c1 :: "MOIP \<Rightarrow> nat \<Rightarrow> IloItem list" where
  "constraint_c1 m u =
     (let n = MOIP_n m;
          terms = map (\<lambda>v. y m v u) (filter (\<lambda>v. allowed_basepair m v u) [0 ..< u]) @
                  map (\<lambda>v. y m u v) (filter (\<lambda>v. allowed_basepair m u v) [u + 4 ..< n]);
          count = length terms
      in if count > 1 then [IloLe (expr_sum_vars terms) (expr_num 1)] else [])"

text \<open>
  No lonely base pair, \<open>s[u]\<close> paired to the right: \<open>u - 1\<close> is a \<open>uint\<close> subtraction, which
  wraps at \<open>u = 0\<close>.
\<close>

definition constraint_c2 :: "MOIP \<Rightarrow> nat \<Rightarrow> IloItem list" where
  "constraint_c2 m u =
     (let n = MOIP_n m;
          e1 = foldl (\<lambda>e v. expr_plus e (expr_var (y m (uint_sub u 1) v))) (expr_num 0)
                 (filter (\<lambda>v. allowed_basepair m (uint_sub u 1) v) [u ..< n]);
          mid = filter (\<lambda>v. allowed_basepair m u v) [u + 1 ..< n];
          e2 = foldl (\<lambda>e v. expr_minus_var e (y m u v)) e1 mid;
          count = length mid;
          e3 = foldl (\<lambda>e v. expr_plus e (expr_var (y m (u + 1) v))) e2
                 (filter (\<lambda>v. allowed_basepair m (u + 1) v) [u + 2 ..< n])
      in if count \<noteq> 0 then [IloGe e3 (expr_num 0)] else [])"

text \<open>No lonely base pair, \<open>s[v]\<close> paired to the left; \<open>v\<close> runs from 2.\<close>

definition constraint_c2p :: "MOIP \<Rightarrow> nat \<Rightarrow> IloItem list" where
  "constraint_c2p m v =
     (let e1 = foldl (\<lambda>e u. expr_plus e (expr_var (y m u (v - 1)))) (expr_num 0)
                 (filter (\<lambda>u. allowed_basepair m u (v - 1)) [0 ..< v - 1]);
          mid = filter (\<lambda>u. allowed_basepair m u v) [0 ..< v];
          e2 = foldl (\<lambda>e u. expr_minus_var e (y m u v)) e1 mid;
          count = length mid;
          e3 = foldl (\<lambda>e u. expr_plus e (expr_var (y m u (v + 1)))) e2
                 (filter (\<lambda>u. allowed_basepair m u (v + 1)) [0 ..< v + 1])
      in if count \<noteq> 0 then [IloGe e3 (expr_num 0)] else [])"

text \<open>No pairing inside component \<open>j\<close> of site \<open>i\<close> when it is inserted.\<close>

definition constraint_c3 :: "MOIP \<Rightarrow> nat \<Rightarrow> nat \<Rightarrow> IloItem list" where
  "constraint_c3 m i j =
     (let n = MOIP_n m;
          c = Motif_comp (MOIP_insertion_sites m ! i) ! j;
          kxi = real (Component_k c);
          inner = concat (map (\<lambda>u. map (\<lambda>v. y m u v) (filter (\<lambda>v. allowed_basepair m u v) [0 ..< n]))
                            [fst (Component_pos c) + 1 ..< uint_sub (snd (Component_pos c)) 1]);
          c3 = foldl (\<lambda>e x. expr_plus e (expr_var x))
                 (expr_plus (expr_num 0) (expr_scaled (kxi - 2) (C m i j))) inner;
          count = length inner
      in if count > 1 then [IloLe c3 (expr_num (kxi - 2))] else [])"

text \<open>No two inserted components over the nucleotide \<open>u\<close>.\<close>

definition constraint_c4 :: "MOIP \<Rightarrow> nat \<Rightarrow> IloItem list" where
  "constraint_c4 m u =
     (let sites = MOIP_insertion_sites m;
          terms = concat (map (\<lambda>i. map (\<lambda>j. C m i j)
                      (filter (\<lambda>j. u \<ge> fst (Component_pos (Motif_comp (sites ! i) ! j)) \<and>
                                   u \<le> snd (Component_pos (Motif_comp (sites ! i) ! j)))
                         [0 ..< length (Motif_comp (sites ! i))]))
                    [0 ..< length sites]);
          nterms = length terms
      in if nterms > 1 then [IloLe (expr_sum_vars terms) (expr_num 1)] else [])"

text \<open>A motif with several components is inserted whole or not at all.\<close>

definition constraint_c5 :: "MOIP \<Rightarrow> nat \<Rightarrow> IloItem list" where
  "constraint_c5 m i =
     (let x = MOIP_insertion_sites m ! i
      in if length (Motif_comp x) = 1 then []
         else [IloEq (expr_sum_vars (map (\<lambda>j. C m i j) [1 ..< length (Motif_comp x)]))
                     (expr_scaled (real (length (Motif_comp x) - 1)) (C m i 0))])"

text \<open>
  The last block, "force basepairs between the end of a component and the beginning of
  the next", for the site \<open>i\<close>: \<open>C(i, 0) <= c6p\<close>, where \<open>c6p\<close> is the variable of the
  closing pair when that pair is allowed and the empty expression otherwise; then, for
  a site with several components, \<open>C(i, j) <= c6\<close> for each \<open>j\<close> below the last, with the
  pair from the end of component \<open>j\<close> to the start of component \<open>j + 1\<close>.
\<close>

definition constraint_c6p :: "MOIP \<Rightarrow> nat \<Rightarrow> IloItem" where
  "constraint_c6p m i =
     (let x = MOIP_insertion_sites m ! i;
          first = fst (Component_pos (Motif_comp x ! 0));
          last_end = snd (Component_pos (last (Motif_comp x)));
          c6p = (if allowed_basepair m first last_end
                 then expr_plus (expr_num 0) (expr_var (y m first last_end)) else expr_num 0)
      in IloLe (expr_var (C m i 0)) c6p)"

definition constraint_c6 :: "MOIP \<Rightarrow> nat \<Rightarrow> nat \<Rightarrow> IloItem" where
  "constraint_c6 m i j =
     (let x = MOIP_insertion_sites m ! i;
          end_j = snd (Component_pos (Motif_comp x ! j));
          start_next = fst (Component_pos (Motif_comp x ! (j + 1)));
          c6 = (if allowed_basepair m end_j start_next
                then expr_plus (expr_num 0) (expr_var (y m end_j start_next)) else expr_num 0)
      in IloLe (expr_var (C m i j)) c6)"

definition constraints_c6_site :: "MOIP \<Rightarrow> nat \<Rightarrow> IloItem list" where
  "constraints_c6_site m i =
     (let x = MOIP_insertion_sites m ! i
      in constraint_c6p m i #
         (if length (Motif_comp x) = 1 then []
          else map (constraint_c6 m i) [0 ..< length (Motif_comp x) - 1]))"

text \<open>
  \<open>MOIP::define_problem_constraints\<close>: the blocks in their order. A site without a
  component makes the code read \<open>C(i, 0)\<close> and \<open>x.comp[0]\<close> outside of their vectors.
\<close>

definition define_problem_constraints :: "MOIP \<Rightarrow> cpp_error + MOIP" where
  "define_problem_constraints m =
     (let n = MOIP_n m;
          sites = [0 ..< length (MOIP_insertion_sites m)]
      in if list_ex (\<lambda>x. Motif_comp x = []) (MOIP_insertion_sites m) then Inl index_out_of_bounds
         else Inr (m \<lparr> MOIP_model := MOIP_model m
                   @ concat (map (constraint_c1 m) [0 ..< n])
                   @ concat (map (constraint_c2 m) [0 ..< n])
                   @ concat (map (constraint_c2p m) [2 ..< n])
                   @ concat (map (\<lambda>i. concat (map (constraint_c3 m i)
                                [0 ..< length (Motif_comp (MOIP_insertion_sites m ! i))])) sites)
                   @ concat (map (constraint_c4 m) [0 ..< n])
                   @ concat (map (constraint_c5 m) sites)
                   @ concat (map (constraints_c6_site m) sites) \<rparr>))"

text \<open>
  The constructor \<open>MOIP::MOIP\<close>. \<open>MOIP_init\<close> is its first part: the two families of
  variables with their tables, an empty model and an empty Pareto set. \<open>MOIP_new\<close> then
  adds the constraints and defines the two objectives.
\<close>

definition MOIP_init :: "nat \<Rightarrow> (nat \<Rightarrow> nat \<Rightarrow> real) \<Rightarrow> Motif list \<Rightarrow> real \<Rightarrow> MOIP" where
  "MOIP_init n pij insertionSites pthreshold =
     (let (yuv, c) = yuv_rows pij pthreshold n [0 ..< uint_sub n 6] 0;
          (Cxip, firsts, i) = Cxip_rows insertionSites 0
      in \<lparr> MOIP_n = n, MOIP_pij = pij, MOIP_insertion_sites = insertionSites,
           MOIP_theta = pthreshold, MOIP_n_basepair_dv = c, MOIP_n_insertion_dv = i,
           index_of_yuv = yuv, index_of_Cxip = Cxip, index_of_first_components = firsts,
           MOIP_model = [], MOIP_obj1 = expr_num 0, MOIP_obj2 = expr_num 0,
           MOIP_pareto = [] \<rparr>)"

definition MOIP_new :: "nat \<Rightarrow> (nat \<Rightarrow> nat \<Rightarrow> real) \<Rightarrow> Motif list \<Rightarrow> real \<Rightarrow> cpp_error + MOIP" where
  "MOIP_new n pij insertionSites pthreshold =
     (case define_problem_constraints (MOIP_init n pij insertionSites pthreshold) of
        Inl e \<Rightarrow> Inl e
      | Inr m1 \<Rightarrow> Inr (m1 \<lparr> MOIP_obj1 := build_obj1 m1, MOIP_obj2 := build_obj2 m1 \<rparr>))"

text \<open>
  Two states of a \<open>MOIP\<close> have the same tables when they agree on the length of the
  sequence, on the sites and on the three index tables: the predicates and accessors
  above then agree on them.
\<close>

definition same_tables :: "MOIP \<Rightarrow> MOIP \<Rightarrow> bool" where
  "same_tables m m' =
     (MOIP_n m' = MOIP_n m \<and> index_of_yuv m' = index_of_yuv m \<and>
      index_of_Cxip m' = index_of_Cxip m \<and>
      index_of_first_components m' = index_of_first_components m \<and>
      MOIP_insertion_sites m' = MOIP_insertion_sites m)"

text \<open>
  The decision variables that the constructor creates. \<open>C(x, i)\<close>: one for every
  component \<open>i\<close> of every insertion site \<open>x\<close>. \<open>y(u, v)\<close>: one for every pair that the two
  loops of the constructor visit (\<open>u\<close> below \<open>n - 6\<close>, \<open>v\<close> from \<open>u + 4\<close> below \<open>n\<close>) and
  whose probability is above \<open>theta_\<close>.
\<close>

definition all_C :: "MOIP \<Rightarrow> dvar set" where
  "all_C m =
     {C m x i |x i. x < length (MOIP_insertion_sites m) \<and>
                   i < length (Motif_comp (MOIP_insertion_sites m ! x))}"

definition all_y :: "MOIP \<Rightarrow> dvar set" where
  "all_y m =
     {y m u v |u v. u < uint_sub (MOIP_n m) 6 \<and> u + 4 \<le> v \<and> v < MOIP_n m \<and>
                   MOIP_pij m u v > MOIP_theta m}"

subsection \<open>MOIP.cpp: \<open>solve_objective\<close>\<close>

text \<open>
  The solver is an oracle: \<open>cplex\<close> maps the content of the model, objective and
  bounds included, to \<open>None\<close> when \<open>cplex_.solve()\<close> fails and to the solution it found
  otherwise. An oracle respects the model (\<open>respects_model\<close>) when every solution it returns satisfies
  each constraint of the model it was given.
\<close>

type_synonym cplex_oracle = "IloItem list \<Rightarrow> solution option"

definition respects_model :: "cplex_oracle \<Rightarrow> bool" where
  "respects_model cplex = (\<forall>items a. cplex items = Some a \<longrightarrow> feasible items a)"

text \<open>
  The expression \<open>c\<close> of the forbid clause. The loop over \<open>insertion_dv_\<close>, then the loop
  over \<open>basepair_dv_\<close>, each from 0 below \<open>getSize()\<close>: a variable whose value is above
  \<open>0.5\<close> adds \<open>1 - x\<close>, any other adds \<open>x\<close>. The constraint that is added is \<open>c >= 1\<close>.
\<close>

definition forbid_step :: "solution \<Rightarrow> IloExpr \<Rightarrow> dvar \<Rightarrow> IloExpr" where
  "forbid_step a c x =
     (if getValue a x > 0.5 then expr_plus c (expr_one_minus x) else expr_plus c (expr_var x))"

definition forbid_expr :: "MOIP \<Rightarrow> solution \<Rightarrow> IloExpr" where
  "forbid_expr m a =
     (let c = expr_num 0;
          c = foldl (\<lambda>c d. forbid_step a c (insertion_dv d)) c [0 ..< MOIP_n_insertion_dv m];
          c = foldl (\<lambda>c d. forbid_step a c (basepair_dv d)) c [0 ..< MOIP_n_basepair_dv m]
      in c)"

definition forbid_clause :: "MOIP \<Rightarrow> solution \<Rightarrow> IloItem" where
  "forbid_clause m a = IloGe (forbid_expr m a) (expr_num 1)"

text \<open>
  \<open>model_.remove(x)\<close> takes out the object that was added; in the list it is the last
  item equal to \<open>x\<close>.
\<close>

definition model_remove :: "IloItem \<Rightarrow> IloItem list \<Rightarrow> IloItem list" where
  "model_remove x items = rev (remove1 x (rev items))"

text \<open>The methods of \<open>SecondaryStructure\<close> that \<open>solve_objective\<close> calls.\<close>

definition insert_motif :: "SecondaryStructure \<Rightarrow> Motif \<Rightarrow> SecondaryStructure" where
  "insert_motif s x = s \<lparr> SS_motif_info := SS_motif_info s @ [x] \<rparr>"

definition set_basepair :: "SecondaryStructure \<Rightarrow> nat \<Rightarrow> nat \<Rightarrow> SecondaryStructure" where
  "set_basepair s u v = s \<lparr> SS_basepairs := SS_basepairs s @ [(u, v)] \<rparr>"

definition SS_sort :: "SecondaryStructure \<Rightarrow> SecondaryStructure" where
  "SS_sort s = s \<lparr> SS_basepairs := sort_key fst (SS_basepairs s) \<rparr>"

definition set_objective_score :: "SecondaryStructure \<Rightarrow> int \<Rightarrow> real \<Rightarrow> SecondaryStructure" where
  "set_objective_score s i v =
     (if i = 1 then s \<lparr> SS_objective_score1 := v \<rparr> else s \<lparr> SS_objective_score2 := v \<rparr>)"

text \<open>The objective and the bounds that \<open>solve_objective\<close> adds for \<open>o = 1\<close> and \<open>o = 2\<close>.\<close>

definition solve_obj :: "MOIP \<Rightarrow> int \<Rightarrow> IloItem" where
  "solve_obj m k = (if k = 1 then IloMaximize (MOIP_obj1 m) else IloMaximize (MOIP_obj2 m))"

definition solve_bounds :: "MOIP \<Rightarrow> int \<Rightarrow> real \<Rightarrow> real \<Rightarrow> IloItem" where
  "solve_bounds m k lo hi =
     (if k = 1 then IloRange lo (MOIP_obj2 m) hi else IloRange lo (MOIP_obj1 m) hi)"

text \<open>
  The part of \<open>solve_objective\<close> under "Build a secondary Structure": the sites whose
  first component has a value above \<open>0.5\<close> are inserted, the allowed pairs whose
  variable has a value above \<open>0.5\<close> are set, the pairs are sorted, and the two scores
  are the values of \<open>obj2\<close> and \<open>obj1\<close>.
\<close>

definition build_structure :: "MOIP \<Rightarrow> solution \<Rightarrow> SecondaryStructure" where
  "build_structure m a =
     (let best_ss = SS_new;
          best_ss = foldl (\<lambda>s i. if getValue a (insertion_dv (index_of_first_components m ! i)) > 0.5
                                  then insert_motif s (MOIP_insertion_sites m ! i) else s)
                      best_ss [0 ..< length (MOIP_insertion_sites m)];
          best_ss = foldl (\<lambda>s (u, v). if allowed_basepair m u v
                                       then (if getValue a (y m u v) > 0.5 then set_basepair s u v else s)
                                       else s)
                      best_ss (moip_pairs m);
          best_ss = SS_sort best_ss;
          best_ss = set_objective_score best_ss 2 (getValue_expr a (MOIP_obj2 m));
          best_ss = set_objective_score best_ss 1 (getValue_expr a (MOIP_obj1 m))
      in best_ss)"

text \<open>
  \<open>MOIP::solve_objective(o, min, max)\<close>, with \<open>k\<close> for the argument \<open>o\<close> (a name of
  function composition in HOL). The result is the structure and the \<open>MOIP\<close>
  after the call. When the solver fails the function returns the empty structure at
  once: the objective and the bounds stay in the model. For \<open>o\<close> other than 1 and 2 the
  \<open>switch\<close> assigns nothing and \<open>obj\<close> and \<open>bounds\<close> are empty handles.
\<close>

definition solve_objective ::
  "cplex_oracle \<Rightarrow> MOIP \<Rightarrow> int \<Rightarrow> real \<Rightarrow> real \<Rightarrow> cpp_error + SecondaryStructure \<times> MOIP" where
  "solve_objective cplex m k lo hi =
     (if k \<noteq> 1 \<and> k \<noteq> 2 then Inl empty_handle
      else
        let obj = solve_obj m k;
            bounds = solve_bounds m k lo hi;
            model1 = (MOIP_model m @ [obj]) @ [bounds]
        in case cplex model1 of
             None \<Rightarrow> Inr (SS_empty, m \<lparr> MOIP_model := model1 \<rparr>)
           | Some a \<Rightarrow>
               let best_ss = build_structure m a;
                   model2 = model1 @ [forbid_clause m a];
                   model3 = model_remove bounds (model_remove obj model2)
               in Inr (best_ss, m \<lparr> MOIP_model := model3 \<rparr>))"

subsection \<open>MOIP.cpp: the Pareto set\<close>

text \<open>\<open>MOIP::is_undominated_yet\<close>: the loop over \<open>pareto_\<close> with its early return.\<close>

fun is_undominated_loop :: "SecondaryStructure list \<Rightarrow> SecondaryStructure \<Rightarrow> bool" where
  "is_undominated_loop [] s = True"
| "is_undominated_loop (p # ps) s = (if SS_gt p s then False else is_undominated_loop ps s)"

definition is_undominated_yet :: "MOIP \<Rightarrow> SecondaryStructure \<Rightarrow> bool" where
  "is_undominated_yet m s = is_undominated_loop (MOIP_pareto m) s"

text \<open>\<open>v.erase(v.begin() + k)\<close>\<close>

definition vec_erase :: "'a list \<Rightarrow> nat \<Rightarrow> 'a list" where
  "vec_erase v k = take k v @ drop (Suc k) v"

text \<open>
  \<open>MOIP::add_solution\<close>: \<open>to_remove\<close> collects the positions of the structures that \<open>s\<close>
  dominates; they are erased from the last one down to \<open>to_remove[1]\<close> by the loop,
  then \<open>to_remove[0]\<close>; then \<open>s\<close> is appended.
\<close>

definition add_solution :: "MOIP \<Rightarrow> SecondaryStructure \<Rightarrow> MOIP" where
  "add_solution m s =
     (let pareto = MOIP_pareto m;
          to_remove = filter (\<lambda>i. SS_gt s (pareto ! i)) [0 ..< length pareto];
          pareto = (if to_remove \<noteq> []
                    then vec_erase
                           (foldl (\<lambda>p i. vec_erase p (to_remove ! i)) pareto (rev [1 ..< length to_remove]))
                           (to_remove ! 0)
                    else pareto)
      in m \<lparr> MOIP_pareto := pareto @ [s] \<rparr>)"

text \<open>
  \<open>MOIP::extend_pareto\<close>. The recursion ends only when the solver fails or returns a
  dominated structure, so the function is partial: \<open>None\<close> is "no result". The last
  argument is not in the code: it records the calls of \<open>add_solution\<close> made so far, each
  with the structure that was passed and the value of \<open>pareto_\<close> after the call, and is
  returned with the final state.
\<close>

type_synonym pareto_trace = "(SecondaryStructure \<times> SecondaryStructure list) list"

partial_function (option) extend_pareto ::
  "cplex_oracle \<Rightarrow> MOIP \<Rightarrow> real \<Rightarrow> real \<Rightarrow> pareto_trace \<Rightarrow> (cpp_error + MOIP \<times> pareto_trace) option" where
  "extend_pareto cplex m lambdaMin lambdaMax tr =
     (case solve_objective cplex m 2 lambdaMin lambdaMax of
        Inl e \<Rightarrow> Some (Inl e)
      | Inr (s, m1) \<Rightarrow>
          if \<not> is_empty_structure s then
            if is_undominated_yet m1 s then
              extend_pareto cplex (add_solution m1 s) (get_objective_score s 1) lambdaMax
                (tr @ [(s, MOIP_pareto (add_solution m1 s))])
            else Some (Inr (m1, tr))
          else Some (Inr (m1, tr)))"

declare extend_pareto.simps [code]

text \<open>The invariant of the Pareto set: no element dominates an element.\<close>

definition pareto_inv :: "SecondaryStructure list \<Rightarrow> bool" where
  "pareto_inv P = list_all (\<lambda>s. list_all (\<lambda>t. \<not> SS_gt s t) P) P"

text \<open>The invariant after each recorded call, and the values of \<open>obj1\<close> that were passed.\<close>

definition trace_inv :: "pareto_trace \<Rightarrow> bool" where
  "trace_inv tr = list_all (\<lambda>e. pareto_inv (snd e)) tr"

definition trace_obj1 :: "pareto_trace \<Rightarrow> real list" where
  "trace_obj1 tr = map (\<lambda>e. get_objective_score (fst e) 1) tr"

text \<open>
  The entries of \<open>insertion_dv_\<close> and of \<open>basepair_dv_\<close>, in the order of the two arrays,
  and how many of the variables \<open>xs\<close> two solutions value differently.
\<close>

definition decision_variables :: "MOIP \<Rightarrow> dvar list" where
  "decision_variables m =
     map insertion_dv [0 ..< MOIP_n_insertion_dv m] @ map basepair_dv [0 ..< MOIP_n_basepair_dv m]"


definition differing :: "solution \<Rightarrow> solution \<Rightarrow> dvar list \<Rightarrow> nat" where
  "differing a b xs = length (filter (\<lambda>x. a x \<noteq> b x) xs)"

subsection \<open>A concrete oracle and a concrete instance\<close>

text \<open>
  The examples below need a solver. \<open>cplex_enum vars\<close> is the exhaustive one: among the
  solutions that set a sublist of \<open>vars\<close> to 1 and every other variable to 0, it returns
  a feasible one whose value of the objective (the last \<open>IloMaximize\<close> of the model) is
  largest (the last such one in the order of \<open>subseqs\<close>), and fails when none is
  feasible.
\<close>

definition sol_of :: "dvar list \<Rightarrow> solution" where
  "sol_of S = (\<lambda>x. List.member S x)"

fun model_objective :: "IloItem list \<Rightarrow> IloExpr" where
  "model_objective [] = expr_num 0"
| "model_objective (IloMaximize e # items) =
     (if list_ex (\<lambda>i. case i of IloMaximize _ \<Rightarrow> True | _ \<Rightarrow> False) items
      then model_objective items else e)"
| "model_objective (_ # items) = model_objective items"

definition cplex_enum_choice :: "dvar list \<Rightarrow> IloItem list \<Rightarrow> dvar list option" where
  "cplex_enum_choice vars items =
     (case filter (\<lambda>S. feasible items (sol_of S)) (subseqs vars) of
        [] \<Rightarrow> None
      | S # rest \<Rightarrow>
          Some (foldl (\<lambda>best T. if getValue_expr (sol_of T) (model_objective items) \<ge>
                                     getValue_expr (sol_of best) (model_objective items)
                                  then T else best) S rest))"

definition cplex_enum :: "dvar list \<Rightarrow> cplex_oracle" where
  "cplex_enum vars items = map_option sol_of (cplex_enum_choice vars items)"

text \<open>
  The instance: a sequence of length 8 on which the two stacked pairs \<open>(0, 7)\<close> and
  \<open>(1, 6)\<close> have a probability above \<open>theta = 0.1\<close>, and one candidate site, a motif of
  score 10 with the single component \<open>[0, 7]\<close>.
\<close>

definition pij8 :: "nat \<Rightarrow> nat \<Rightarrow> real" where
  "pij8 u v = (if u = 0 \<and> v = 7 then 0.9 else if u = 1 \<and> v = 6 then 0.8 else 0)"

definition site8 :: Motif where
  "site8 =
     \<lparr> Motif_comp = [\<lparr> Component_pos = (0, 7), Component_k = 8, Component_seq = [] \<rparr>],
       Motif_links = [], atlas_id = ''HL_1'', carnaval_id = [], PDBID = [],
       Motif_score = 10, Motif_reversed = False, Motif_is_model = True,
       Motif_source = RNAMOTIFATLAS \<rparr>"

definition vars8 :: "dvar list" where
  "vars8 = [insertion_dv 0, basepair_dv 0, basepair_dv 1]"

text \<open>
  The state that the constructor builds for this instance: the variables \<open>y(0, 7)\<close>
  and \<open>y(1, 6)\<close> are numbered 0 and 1, \<open>C(0, 0)\<close> is \<open>insertion_dv 0\<close>; the model holds
  the four constraints against lonely base pairs and \<open>C(0, 0) <= y(0, 7)\<close>.
\<close>

definition moip8 :: MOIP where
  "moip8 =
     \<lparr> MOIP_n = 8, MOIP_pij = pij8, MOIP_insertion_sites = [site8], MOIP_theta = 0.1,
       MOIP_n_basepair_dv = 2, MOIP_n_insertion_dv = 1,
       index_of_yuv = [[65, 65, 65, 0], [65, 1, 65]], index_of_Cxip = [[0]],
       index_of_first_components = [0],
       MOIP_model =
         [IloGe (0, [(- 1, basepair_dv 0), (1, basepair_dv 1)]) (0, []),
          IloGe (0, [(1, basepair_dv 0), (- 1, basepair_dv 1)]) (0, []),
          IloGe (0, [(- 1, basepair_dv 1), (1, basepair_dv 0)]) (0, []),
          IloGe (0, [(1, basepair_dv 1), (- 1, basepair_dv 0)]) (0, []),
          IloLe (0, [(1, insertion_dv 0)]) (0, [(1, basepair_dv 0)])],
       MOIP_obj1 = (0, [(10, insertion_dv 0)]),
       MOIP_obj2 = (0, [(0.9, basepair_dv 0), (0.8, basepair_dv 1)]),
       MOIP_pareto = [] \<rparr>"

text \<open>
  A second candidate site for the same sequence, with the two components \<open>[0, 2]\<close> and
  \<open>[5, 7]\<close>: its closing pair is \<open>(0, 7)\<close>, and the pair between its components is
  \<open>(2, 5)\<close>.
\<close>

definition site8b :: Motif where
  "site8b = site8 \<lparr> Motif_comp :=
      [\<lparr> Component_pos = (0, 2), Component_k = 3, Component_seq = [] \<rparr>,
       \<lparr> Component_pos = (5, 7), Component_k = 3, Component_seq = [] \<rparr>] \<rparr>"

text \<open>
  The two stages of the constructor on the instance: after the tables, and after the
  constraints.
\<close>

definition moip8_init :: MOIP where
  "moip8_init = MOIP_init 8 pij8 [site8] 0.1"

definition moip8_constrained :: MOIP where
  "moip8_constrained = moip8_init \<lparr> MOIP_model := MOIP_model moip8 \<rparr>"


subsection \<open>rna.cpp: interior loops\<close>

text \<open>
  \<open>RNA::Gloop\<close>, \<open>RNA::GIL_asymmetry\<close> and the two \<open>RNA::GIL_mismatch\<close>. The loop lengths
  are \<open>uint\<close>, so the two table indices \<open>l - 1\<close> are unsigned subtractions. The second
  \<open>GIL_mismatch\<close> reads the table at \<open>[BASE_N][BASE_N]\<close>, that is at \<open>[0][0]\<close>.
\<close>

definition Gloop :: "RNA \<Rightarrow> nat \<Rightarrow> cpp_error + real" where
  "Gloop r l =
     (if l \<le> 30
      then tab (len_in (int (uint_sub l 1))) (nrjp_interior37 (RNA_nrjp r) (int (uint_sub l 1)))
      else tab (len_in (30 - 1))
             (nrjp_interior37 (RNA_nrjp r) (30 - 1) + nrjp_loop_greater30 (RNA_nrjp r) * ln (real l / 30)))"

definition GIL_asymmetry :: "RNA \<Rightarrow> nat \<Rightarrow> nat \<Rightarrow> cpp_error + real" where
  "GIL_asymmetry r l1 l2 =
     bindE (Gloop r (l1 + l2))
       (\<lambda>g. bindE (tab (asym_in (int (uint_sub (min 4 (min l1 l2)) 1)))
                     (nrjp_asymmetry_penalty (RNA_nrjp r) (int (uint_sub (min 4 (min l1 l2)) 1))))
          (\<lambda>ap. Inr (g + min (nrjp_max_asymmetry (RNA_nrjp r))
                            (real_of_int (abs (int l1 - int l2)) * ap))))"

definition GIL_mismatch4 :: "RNA \<Rightarrow> nat \<Rightarrow> nat \<Rightarrow> nat \<Rightarrow> nat \<Rightarrow> cpp_error + real" where
  "GIL_mismatch4 r i j k l =
     tab (base_in (bidx r k) \<and> base_in (bidx r l) \<and> pair_in (pair_type r i j))
       (nrjp_mismatch_interior37 (RNA_nrjp r) (bidx r k) (bidx r l) (pair_type r i j))"

definition GIL_mismatch2 :: "RNA \<Rightarrow> nat \<Rightarrow> nat \<Rightarrow> cpp_error + real" where
  "GIL_mismatch2 r i j =
     tab (base_in (base_value BASE_N) \<and> base_in (base_value BASE_N) \<and> pair_in (pair_type r i j))
       (nrjp_mismatch_interior37 (RNA_nrjp r) (base_value BASE_N) (base_value BASE_N) (pair_type r i j))"

text \<open>
  \<open>RNA::GIL(i, h, m, j, pk)\<close>, the energy of the loop between the pair \<open>(i, j)\<close> and the
  inner pair \<open>(h, m)\<close>. The three branches \<open>assert(!"..."); exit(...)\<close> are the results
  \<open>Inl assertion_failed\<close>.
\<close>

definition GIL :: "RNA \<Rightarrow> nat \<Rightarrow> nat \<Rightarrow> nat \<Rightarrow> nat \<Rightarrow> bool \<Rightarrow> cpp_error + real" where
  "GIL r i h m j pk =
     (let p = RNA_nrjp r;
          l1 = int h - int i - 1;
          l2 = int j - int m - 1;
          size = l1 + l2;
          span = (if pk then nrjp_pk_interior_span p else 1);
          stack = tab (pair_in (pair_type r i j) \<and> pair_in (pair_type r h m))
                    (nrjp_stack37 p (pair_type r i j) (pair_type r h m))
      in if size = 0 then
           bindE stack (\<lambda>st. Inr (st * (if pk then nrjp_pk_stack_span p else 1)))
         else if l1 = 0 \<or> l2 = 0 then
           bindE (if size \<le> 30 then tab (len_in (size - 1)) (nrjp_bulge37 p (size - 1))
                  else tab (len_in (30 - 1))
                         (nrjp_bulge37 p (30 - 1) + nrjp_loop_greater30 p * ln (real_of_int size / 30)))
             (\<lambda>b.
                let e = 0 + b
                in if l1 + l2 = 1
                   then bindE stack (\<lambda>st. Inr ((e + st - nrjp_salt_correction p) * span))
                   else Inr ((e + Gpenalty r i j + Gpenalty r h m) * span))
         else if l1 > 0 \<and> l2 > 0 then
           let asymmetry = abs (l1 - l2)
           in if asymmetry > 1 \<or> size > 4 then
                bindE (GIL_asymmetry r (nat l1) (nat l2))
                  (\<lambda>ga.
                     let e = 0 + ga
                     in if l1 > 1 \<and> l2 > 1 then
                          bindE (GIL_mismatch4 r m h (m + 1) (h - 1))
                            (\<lambda>m1. bindE (GIL_mismatch4 r i j (i + 1) (j - 1))
                               (\<lambda>m2. Inr ((e + m1 + m2) * span)))
                        else if l1 = 1 \<or> l2 = 1 then
                          bindE (GIL_mismatch2 r m h)
                            (\<lambda>m1. bindE (GIL_mismatch2 r i j)
                               (\<lambda>m2. Inr ((e + m1 + m2) * span)))
                        else Inl assertion_failed)
              else if l1 = 1 \<and> l2 = 1 then
                bindE (tab (pair_in (pair_type r i j) \<and> pair_in (pair_type r h m) \<and>
                            base_in (bidx r (i + 1)) \<and> base_in (bidx r (j - 1)))
                         (nrjp_int11_37 p (pair_type r i j) (pair_type r h m) (bidx r (i + 1)) (bidx r (j - 1))))
                  (\<lambda>v. Inr ((0 + v) * span))
              else if l1 = 2 \<and> l2 = 2 then
                bindE (tab (pair_in (pair_type r i j) \<and> pair_in (pair_type r h m) \<and>
                            base_in (bidx r (i + 1)) \<and> base_in (bidx r (j - 1)) \<and>
                            base_in (bidx r (i + 2)) \<and> base_in (bidx r (j - 2)))
                         (nrjp_int22_37 p (pair_type r i j) (pair_type r h m) (bidx r (i + 1)) (bidx r (j - 1))
                            (bidx r (i + 2)) (bidx r (j - 2))))
                  (\<lambda>v. Inr ((0 + v) * span))
              else if l1 = 1 \<and> l2 = 2 then
                bindE (tab (pair_in (pair_type r i j) \<and> base_in (bidx r (j - 2)) \<and>
                            base_in (bidx r (i + 1)) \<and> pair_in (pair_type r h m) \<and>
                            base_in (bidx r (j - 1)))
                         (nrjp_int21_37 p (pair_type r i j) (bidx r (j - 2)) (bidx r (i + 1)) (pair_type r h m)
                            (bidx r (j - 1))))
                  (\<lambda>v. Inr ((0 + v) * span))
              else if l1 = 2 \<and> l2 = 1 then
                bindE (tab (pair_in (pair_type r m h) \<and> base_in (bidx r (i + 1)) \<and>
                            base_in (bidx r (j - 1)) \<and> pair_in (pair_type r j i) \<and>
                            base_in (bidx r (i + 2)))
                         (nrjp_int21_37 p (pair_type r m h) (bidx r (i + 1)) (bidx r (j - 1)) (pair_type r j i)
                            (bidx r (i + 2))))
                  (\<lambda>v. Inr ((0 + v) * span))
              else Inl assertion_failed
         else Inl assertion_failed)"

subsection \<open>rna.cpp: the matrices of the recursions\<close>

text \<open>
  The Eigen matrices of the partition functions and of the posterior are kept in one
  store, from the name of the matrix and the two indices to the entry. \<open>Zero(n, n)\<close> is
  the matrix of zeros; the model does not check that an index is below \<open>n\<close>.
\<close>

datatype matrix = M_Q | M_Qb | M_Qm | M_Qs | M_Qms | M_Qx | M_Qx1 | M_Qx2 | M_P | M_Pb | M_Pm

type_synonym store = "matrix \<Rightarrow> nat \<Rightarrow> nat \<Rightarrow> real"

definition zero_store :: store where
  "zero_store = (\<lambda>M i j. 0)"

text \<open>\<open>M(i, j) = v\<close>, \<open>M(i, j) += v\<close>, \<open>M = M'\<close> and \<open>M.setZero()\<close>.\<close>

definition assign :: "store \<Rightarrow> matrix \<Rightarrow> nat \<Rightarrow> nat \<Rightarrow> real \<Rightarrow> store" where
  "assign t M i j v = t (M := (t M) (i := (t M i) (j := v)))"

definition add_to :: "store \<Rightarrow> matrix \<Rightarrow> nat \<Rightarrow> nat \<Rightarrow> real \<Rightarrow> store" where
  "add_to t M i j v = assign t M i j (t M i j + v)"

definition copy_matrix :: "store \<Rightarrow> matrix \<Rightarrow> matrix \<Rightarrow> store" where
  "copy_matrix t M M' = t (M := t M')"

definition set_zero :: "store \<Rightarrow> matrix \<Rightarrow> store" where
  "set_zero t M = t (M := (\<lambda>i j. 0))"

text \<open>The Boltzmann factor \<open>exp(-g / RT)\<close>.\<close>

definition boltz :: "RNA \<Rightarrow> real \<Rightarrow> real" where
  "boltz r g = exp (- g / RNA_RT r)"

text \<open>
  A loop whose body can end the computation, and the index pairs of two nested loops
  in the order in which the loops visit them.
\<close>

fun foldE :: "('a \<Rightarrow> 's \<Rightarrow> cpp_error + 's) \<Rightarrow> 'a list \<Rightarrow> 's \<Rightarrow> cpp_error + 's" where
  "foldE f [] s = Inr s"
| "foldE f (x # xs) s = (case f x s of Inl e \<Rightarrow> Inl e | Inr s' \<Rightarrow> foldE f xs s')"

definition nested :: "nat list \<Rightarrow> (nat \<Rightarrow> nat list) \<Rightarrow> (nat \<times> nat) list" where
  "nested outer inner = concat (map (\<lambda>a. map (\<lambda>b. (a, b)) (inner a)) outer)"

text \<open>
  The seeds of both engines: \<open>Q(i, i + 1) = 1\<close>, and \<open>Q(i, i + l - 1) = 1\<close> for the lengths
  3 and 4. The bounds of the \<open>int\<close> loops are \<open>i < n - 1\<close> and \<open>i <= n - l\<close>.
\<close>

definition pf_seed :: "nat \<Rightarrow> store" where
  "pf_seed n =
     (let t = fold (\<lambda>i t. assign t M_Q i (i + 1) 1) [0 ..< n - 1] zero_store
      in fold (\<lambda>l t. fold (\<lambda>i t. assign t M_Q i (i + l - 1) 1) [0 ..< n + 1 - l] t) [3, 4] t)"

subsection \<open>rna.cpp: \<open>compute_partition_function_noPK_ON4\<close>\<close>

text \<open>
  The body of the loop over the inner pair \<open>(d, e)\<close> in the recursion of \<open>Qb\<close>, then the
  bodies of the loops for \<open>Qm\<close> and \<open>Q\<close>.
\<close>

definition ON4_Qb_step :: "RNA \<Rightarrow> nat \<Rightarrow> nat \<Rightarrow> nat \<times> nat \<Rightarrow> store \<Rightarrow> cpp_error + store" where
  "ON4_Qb_step r i j de t =
     (let d = fst de; e = snd de;
          a1 = nrjp_a1 (RNA_nrjp r); a2 = nrjp_a2 (RNA_nrjp r); a3 = nrjp_a3 (RNA_nrjp r)
      in case GIL r i d e j False of
           Inl err \<Rightarrow> Inl err
         | Inr g \<Rightarrow>
             let t = add_to t M_Qb i j (t M_Qb d e * boltz r g)
             in if d \<ge> i + 2
                then Inr (add_to t M_Qb i j
                            (t M_Qb d e * t M_Qm (i + 1) (d - 1) *
                             boltz r (a1 + 2 * a2 + real_of_int (int j - int e - 1) * a3)))
                else Inr t)"

definition ON4_Qm_step :: "RNA \<Rightarrow> nat \<Rightarrow> nat \<Rightarrow> nat \<times> nat \<Rightarrow> store \<Rightarrow> store" where
  "ON4_Qm_step r i j de t =
     (let d = fst de; e = snd de;
          a2 = nrjp_a2 (RNA_nrjp r); a3 = nrjp_a3 (RNA_nrjp r);
          t = add_to t M_Qm i j
                (t M_Qb d e * boltz r (a2 + a3 * real_of_int (int d - int i + int j - int e)))
      in if d > i
         then add_to t M_Qm i j
                (t M_Qb d e * t M_Qm i (d - 1) * boltz r (a2 + a3 * real_of_int (int j - int e)))
         else t)"

definition ON4_Q_step :: "nat \<Rightarrow> nat \<Rightarrow> nat \<times> nat \<Rightarrow> store \<Rightarrow> store" where
  "ON4_Q_step i j de t =
     (let d = fst de; e = snd de
      in if d > i then add_to t M_Q i j (t M_Q i (d - 1) * t M_Qb d e)
         else add_to t M_Q i j (t M_Qb d e))"

text \<open>
  The body of the loop over \<open>i\<close> for the length \<open>l\<close>: the subsequence \<open>[i, j]\<close>. The
  loop is marked \<open>#pragma omp parallel for\<close> in both engines and in the back-recursion;
  the embedding runs its iterations one after the other, in the order of \<open>i\<close>.
\<close>

definition ON4_cell :: "RNA \<Rightarrow> nat \<Rightarrow> nat \<Rightarrow> store \<Rightarrow> cpp_error + store" where
  "ON4_cell r l i t =
     (let j = i + l - 1
      in bindE (GHL r i j)
           (\<lambda>g.
              let t = assign t M_Qb i j (boltz r g)
              in bindE (if l \<ge> 7
                        then foldE (ON4_Qb_step r i j) (nested [i + 1 ..< j - 4] (\<lambda>d. [d + 4 ..< j])) t
                        else Inr t)
                   (\<lambda>t.
                      let t = fold (ON4_Qm_step r i j) (nested [i ..< j - 3] (\<lambda>d. [d + 4 ..< j + 1])) t;
                          t = assign t M_Q i j 1;
                          t = fold (ON4_Q_step i j) (nested [i ..< j - 3] (\<lambda>d. [d + 4 ..< j + 1])) t
                      in Inr t)))"

text \<open>
  The engine returns \<open>Q\<close>, \<open>Qb\<close> and \<open>Qm\<close>: here the store that holds them. Before it
  returns it prints \<open>Q(0, n_ - 1)\<close>, an entry that an empty sequence does not have.
\<close>

definition compute_partition_function_noPK_ON4 :: "RNA \<Rightarrow> cpp_error + store" where
  "compute_partition_function_noPK_ON4 r =
     (let n = RNA_n r
      in case foldE (\<lambda>l. foldE (ON4_cell r l) [0 ..< n + 1 - l]) [5 ..< n + 1] (pf_seed n) of
           Inl err \<Rightarrow> Inl err
         | Inr t \<Rightarrow> if n = 0 then Inl index_out_of_bounds else Inr t)"


subsection \<open>rna.cpp: \<open>compute_partition_function_noPK_ON3\<close>\<close>

text \<open>
  The extensible interior loops: \<open>Qx(i, s)\<close> gathers the inner pairs \<open>(d, e)\<close> whose two
  loop lengths are at least 4 and sum to \<open>s\<close>, and \<open>Qx2(i - 1, s + 2)\<close> is prepared for the
  length \<open>l + 2\<close>. The test \<open>j != int(n_)\<close> is kept as written.
\<close>

definition ON3_Qx_term :: "RNA \<Rightarrow> nat \<Rightarrow> nat \<Rightarrow> nat \<Rightarrow> nat \<Rightarrow> store \<Rightarrow> cpp_error + store" where
  "ON3_Qx_term r i j d e t =
     (let L1 = d - i - 1; L2 = j - e - 1
      in bindE (GIL_asymmetry r L1 L2)
           (\<lambda>ga. bindE (GIL_mismatch4 r d e (d + 1) (e - 1))
              (\<lambda>mm. Inr (add_to t M_Qx i (L1 + L2) (t M_Qb d e * boltz r (ga + mm))))))"

definition ON3_Qx :: "RNA \<Rightarrow> nat \<Rightarrow> nat \<Rightarrow> store \<Rightarrow> cpp_error + store" where
  "ON3_Qx r l i t =
     (let j = i + l - 1
      in bindE (foldE (\<lambda>e. ON3_Qx_term r i j (i + 5) e) [i + 5 + 4 ..< j - 4] t)
           (\<lambda>t. bindE (foldE (\<lambda>d. ON3_Qx_term r i j d (j - 5)) [i + 6 ..< j - 5 - 3] t)
              (\<lambda>t. if i > 0 \<and> j \<noteq> RNA_n r
                    then foldE (\<lambda>s t. bindE (Gloop r (s + 2))
                                         (\<lambda>g2. bindE (Gloop r s)
                                            (\<lambda>g. Inr (assign t M_Qx2 (i - 1) (s + 2)
                                                        (t M_Qx i s * boltz r (g2 - g))))))
                           [8 ..< l - 6] t
                    else Inr t)))"

text \<open>The loops that add to \<open>Qb(i, j)\<close> a term read from the inner pair \<open>(d, e)\<close>.\<close>

definition ON3_Qb_step :: "RNA \<Rightarrow> nat \<Rightarrow> nat \<Rightarrow> nat \<times> nat \<Rightarrow> store \<Rightarrow> cpp_error + store" where
  "ON3_Qb_step r i j de t =
     (let d = fst de; e = snd de
      in case GIL r i d e j False of
           Inl err \<Rightarrow> Inl err
         | Inr g \<Rightarrow> Inr (add_to t M_Qb i j (t M_Qb d e * boltz r g)))"

definition ON3_Qm_step :: "RNA \<Rightarrow> nat \<Rightarrow> nat \<Rightarrow> nat \<Rightarrow> store \<Rightarrow> store" where
  "ON3_Qm_step r i j d t =
     (let a3 = nrjp_a3 (RNA_nrjp r);
          t = add_to t M_Qm i j (t M_Qms d j * exp (- a3 * real_of_int (int d - int i) / RNA_RT r))
      in if d > i then add_to t M_Qm i j (t M_Qms d j * t M_Qm i (d - 1)) else t)"

definition ON3_Q_step :: "nat \<Rightarrow> nat \<Rightarrow> nat \<Rightarrow> store \<Rightarrow> store" where
  "ON3_Q_step i j d t =
     (if d > i then add_to t M_Q i j (t M_Q i (d - 1) * t M_Qs d j)
      else add_to t M_Q i j (t M_Qs d j))"

text \<open>
  The body of the loop over \<open>i\<close>. The second loop over \<open>e\<close> starts at \<open>max(d + 4, j - 4)\<close>,
  the \<open>max\<close> of the file on \<open>uint\<close>; \<open>j\<close> is at least 4 here.
\<close>

definition ON3_cell :: "RNA \<Rightarrow> nat \<Rightarrow> nat \<Rightarrow> store \<Rightarrow> cpp_error + store" where
  "ON3_cell r l i t =
     (let j = i + l - 1;
          a1 = nrjp_a1 (RNA_nrjp r); a2 = nrjp_a2 (RNA_nrjp r); a3 = nrjp_a3 (RNA_nrjp r)
      in bindE (if l \<ge> 15 then ON3_Qx r l i t else Inr t)
           (\<lambda>t. bindE (GHL r i j)
              (\<lambda>g.
                 let t = assign t M_Qb i j (boltz r g)
                 in bindE (foldE (\<lambda>s t. bindE (GIL_mismatch4 r i j (i + 1) (j - 1))
                                          (\<lambda>mm. Inr (add_to t M_Qb i j (t M_Qx i s * boltz r mm))))
                             [8 ..< l - 6] t)
                      (\<lambda>t. bindE (foldE (ON3_Qb_step r i j)
                                     (nested [i + 1 ..< i + 5] (\<lambda>d. [max (d + 4) (j - 4) ..< j]) @
                                      nested [i + 1 ..< i + 5] (\<lambda>d. [d + 4 ..< j - 4]) @
                                      map (\<lambda>ed. (snd ed, fst ed))
                                        (nested [j - 4 ..< j] (\<lambda>e. [i + 5 ..< e - 3]))) t)
                         (\<lambda>t.
                            let t = fold (\<lambda>d t. add_to t M_Qb i j
                                                   (t M_Qm (i + 1) (d - 1) * t M_Qms d (j - 1) *
                                                    boltz r (a1 + a2)))
                                      [i + 6 ..< j - 4] t;
                                t = fold (\<lambda>d t. add_to t M_Qs i j (t M_Qb i d)) [i + 4 ..< j + 1] t;
                                t = fold (\<lambda>d t. add_to t M_Qms i j
                                                   (t M_Qb i d *
                                                    boltz r (a2 + a3 * real_of_int (int j - int d))))
                                      [i + 4 ..< j + 1] t;
                                t = fold (ON3_Qm_step r i j) [i ..< j - 3] t;
                                t = assign t M_Q i j 1;
                                t = fold (ON3_Q_step i j) [i ..< j - 3] t
                            in Inr t)))))"

text \<open>The three assignments \<open>Qx = Qx1; Qx1 = Qx2; Qx2.setZero()\<close> open each length.\<close>

definition ON3_shift :: "store \<Rightarrow> store" where
  "ON3_shift t = set_zero (copy_matrix (copy_matrix t M_Qx M_Qx1) M_Qx1 M_Qx2) M_Qx2"

definition compute_partition_function_noPK_ON3 :: "RNA \<Rightarrow> cpp_error + store" where
  "compute_partition_function_noPK_ON3 r =
     (let n = RNA_n r
      in case foldE (\<lambda>l t. foldE (ON3_cell r l) [0 ..< n + 1 - l] (ON3_shift t)) [5 ..< n + 1] (pf_seed n) of
           Inl err \<Rightarrow> Inl err
         | Inr t \<Rightarrow> if n = 0 then Inl index_out_of_bounds else Inr t)"

subsection \<open>rna.cpp: \<open>compute_posterior_noPK_ON4\<close>\<close>

text \<open>
  A division of the back-recursion. When the denominator is zero the quotient of two
  \<open>float\<close> values is an infinity or a NaN; these are not numbers of the embedding, and
  the division is the result \<open>Inl division_by_zero\<close>. An infinity that a \<open>float\<close> reaches
  by overflow is not in the embedding either (see the conventions): a result \<open>Inr\<close> of
  the back-recursion is the matrix that exact arithmetic gives.
\<close>

definition divE :: "real \<Rightarrow> real \<Rightarrow> cpp_error + real" where
  "divE x d = (if d = 0 then Inl division_by_zero else Inr (x / d))"

text \<open>
  The body of the loops of the \<open>P\<close>, \<open>Pm\<close> recursion for the pair \<open>(d, e)\<close>. The exponent of
  its second statement is \<open>-(a2 + a3 * (d - i + j - e) / RT)\<close> as the source brackets it.
\<close>

definition post_P_step :: "RNA \<Rightarrow> nat \<Rightarrow> nat \<Rightarrow> nat \<times> nat \<Rightarrow> store \<Rightarrow> cpp_error + store" where
  "post_P_step r i j de t =
     (let d = fst de; e = snd de;
          a2 = nrjp_a2 (RNA_nrjp r); a3 = nrjp_a3 (RNA_nrjp r)
      in bindE (if d > i
                then bindE (divE (t M_P i j * t M_Q i (d - 1) * t M_Qb d e) (t M_Q i j))
                       (\<lambda>dP. Inr (add_to t M_P i (d - 1) dP, dP))
                else bindE (divE (t M_P i j * t M_Qb d e) (t M_Q i j)) (\<lambda>dP. Inr (t, dP)))
           (\<lambda>tdP.
              let t = add_to (fst tdP) M_Pb d e (snd tdP)
              in bindE (divE (t M_Pm i j *
                              exp (- (a2 + a3 * real_of_int (int d - int i + int j - int e) / RNA_RT r)) *
                              t M_Qb d e) (t M_Qm i j))
                   (\<lambda>v.
                      let t = add_to t M_Pb d e v
                      in bindE (if d > i
                                then bindE (divE (t M_Pm i j * t M_Qm i (d - 1) * t M_Qb d e *
                                                  boltz r (a2 + a3 * real_of_int (int j - int e)))
                                                 (t M_Qm i j))
                                       (\<lambda>dP. Inr (add_to t M_Pm i (d - 1) dP, dP))
                                else bindE (divE (t M_Pm i j * t M_Qb d e *
                                                  boltz r (a2 + a3 * real_of_int (int j - int e)))
                                                 (t M_Qm i j))
                                       (\<lambda>dP. Inr (t, dP)))
                           (\<lambda>tdP. Inr (add_to (fst tdP) M_Pb d e (snd tdP))))))"

text \<open>The body of the loops of the \<open>Pb\<close> recursion, under its test \<open>Qb(i, j) > 0\<close>.\<close>

definition post_Pb_step :: "RNA \<Rightarrow> nat \<Rightarrow> nat \<Rightarrow> nat \<times> nat \<Rightarrow> store \<Rightarrow> cpp_error + store" where
  "post_Pb_step r i j de t =
     (let d = fst de; e = snd de;
          a1 = nrjp_a1 (RNA_nrjp r); a2 = nrjp_a2 (RNA_nrjp r); a3 = nrjp_a3 (RNA_nrjp r)
      in if t M_Qb i j > 0
         then bindE (GIL r i d e j False)
                (\<lambda>g. bindE (divE (t M_Pb i j * t M_Qb d e * boltz r g) (t M_Qb i j))
                   (\<lambda>v.
                      let t = add_to t M_Pb d e v
                      in bindE (divE (t M_Pb i j * t M_Qm (i + 1) (d - 1) * t M_Qb d e *
                                      boltz r (a1 + 2 * a2 + real_of_int (int j - int e - 1) * a3))
                                     (t M_Qb i j))
                           (\<lambda>dP. Inr (add_to (add_to t M_Pm (i + 1) (d - 1) dP) M_Pb d e dP))))
         else Inr t)"

definition post_cell :: "RNA \<Rightarrow> nat \<Rightarrow> nat \<Rightarrow> store \<Rightarrow> cpp_error + store" where
  "post_cell r l i t =
     (let j = i + l - 1
      in bindE (foldE (post_P_step r i j) (nested [i ..< j - 3] (\<lambda>d. [d + 4 ..< j + 1])) t)
           (foldE (post_Pb_step r i j) (nested [i + 1 ..< j - 4] (\<lambda>d. [d + 4 ..< j]))))"

text \<open>
  \<open>compute_posterior_noPK_ON4(fast)\<close>: the engine chosen by \<open>fast\<close>, the three new matrices
  \<open>P\<close>, \<open>Pb\<close>, \<open>Pm\<close>, the seed \<open>P(0, n_ - 1) = 1\<close>, the lengths from \<open>n_\<close> down to 1, and \<open>Pb\<close>
  as the result. \<open>compute_basepair_probabilities(false, fast)\<close> stores it in \<open>pij_\<close>; the
  constructor calls it with \<open>fast = true\<close>.
\<close>

definition compute_posterior_noPK_ON4 :: "RNA \<Rightarrow> bool \<Rightarrow> cpp_error + (nat \<Rightarrow> nat \<Rightarrow> real)" where
  "compute_posterior_noPK_ON4 r fast =
     bindE (if fast then compute_partition_function_noPK_ON3 r
            else compute_partition_function_noPK_ON4 r)
       (\<lambda>t. let n = RNA_n r;
                t = set_zero (set_zero (set_zero t M_P) M_Pb) M_Pm
            in if n = 0 then Inl index_out_of_bounds
               else bindE (foldE (\<lambda>l. foldE (post_cell r l) [0 ..< n + 1 - l]) (rev [1 ..< n + 1])
                             (assign t M_P 0 (n - 1) 1))
                      (\<lambda>t. Inr (t M_Pb)))"


section \<open>Part II: the properties\<close>

subsection \<open>Ranges with numeral bounds\<close>

lemma upt_0_numeral: "[0 ..< numeral k] = 0 # [Suc 0 ..< numeral k]"
proof -
  have "(0::nat) < numeral k" by simp
  then show ?thesis by (rule upt_conv_Cons)
qed

lemma upt_Suc0_numeral:
  "[Suc 0 ..< numeral k] = (if Suc 0 < numeral k then Suc 0 # [2 ..< numeral k] else [])"
proof -
  have "[Suc 0 ..< numeral k] =
        (if Suc 0 < numeral k then Suc 0 # [Suc (Suc 0) ..< numeral k] else [])"
    by (rule upt_rec)
  then show ?thesis by (simp only: numeral_2_eq_2)
qed

lemma upt_Suc_Suc0_numeral: "[Suc (Suc 0) ..< numeral k] = [2 ..< numeral k]"
  by (simp only: numeral_2_eq_2)

lemmas upt_num = upt_0_numeral upt_Suc0_numeral upt_Suc_Suc0_numeral

subsection \<open>Equality of motifs\<close>

lemma Motif_eq_loop_in_bounds:
  assumes "\<forall>i \<in> set idx. i < length c1 \<and> i < length c2"
  shows "\<exists>b. Motif_eq_loop c1 c2 idx = Inr b"
  using assms by (induction idx) (auto simp: vec_at_def)

text \<open>
  Claim C10 says that \<open>m1 == m2\<close> never reads a component vector out of bounds, also when
  \<open>m2\<close> has fewer components than \<open>m1\<close>. The code reads \<open>m2.comp[1]\<close> of a motif
  that has one component: the comparison of \<open>site_two\<close> with \<open>site_one\<close> ends in
  \<open>index_out_of_bounds\<close>.
\<close>

theorem C10_Motif_eq_reads_out_of_bounds:
  "Motif_eq site_two site_one = Inl index_out_of_bounds"
  by (simp add: Motif_eq_def site_two_def site_one_def vec_at_def Component_neq_def Component_eq_def
      upt_rec)

subsection \<open>The links loop of the RIN reader\<close>

lemma find_char_None: "find_char c s = None \<longleftrightarrow> c \<notin> set s"
  by (induction s) auto

lemma find_char_Some:
  "find_char c s = Some i \<Longrightarrow> i < length s \<and> s ! i = c \<and> c \<notin> set (take i s)"
  by (induction s arbitrary: i) (auto split: if_splits)

lemma links_body_line:
  "links_body line = Inr (lk, line') \<Longrightarrow> line' = erase0 line (find_char CHR '';'' line)"
  by (auto simp: links_body_def Let_def split: sum.splits)

lemma erase0_terminated:
  assumes "terminated line" "line \<noteq> []"
  shows "terminated (erase0 line (find_char CHR '';'' line)) \<and>
         length (erase0 line (find_char CHR '';'' line)) < length line \<and>
         count_list line CHR '';'' = Suc (count_list (erase0 line (find_char CHR '';'' line)) CHR '';'')"
proof -
  from assms have "CHR '';'' \<in> set line"
    using last_in_set[of line] by (auto simp: terminated_def)
  then obtain i where i: "find_char CHR '';'' line = Some i"
    using find_char_None[of "CHR '';''" line] by (cases "find_char CHR '';'' line") auto
  then have il: "i < length line" and at_i: "line ! i = CHR '';''"
    and before: "CHR '';'' \<notin> set (take i line)"
    using find_char_Some by blast+
  have "last (drop (Suc i) line) = last line" if "Suc i < length line"
    using that by (rule last_drop)
  with assms i il have t: "terminated (drop (Suc i) line)"
    by (cases "Suc i < length line") (auto simp: terminated_def)
  have "line = take i line @ line ! i # drop (Suc i) line"
    using il by (rule id_take_nth_drop)
  then have "count_list line CHR '';'' =
      count_list (take i line @ line ! i # drop (Suc i) line) CHR '';''" by simp
  also have "\<dots> = Suc (count_list (drop (Suc i) line) CHR '';'')"
    using before at_i by (simp add: count_list_0_iff)
  finally show ?thesis using t i il by (simp add: erase0_def)
qed

text \<open>
  The hazard of the loop: a non-empty rest of the line without \<open>;\<close> (a last record that is
  not terminated) whose two numbers parse is never consumed, and the loop has no result.
\<close>

lemma links_loop_unterminated_record:
  assumes "s \<noteq> []" "CHR '';'' \<notin> set s" "links_body s = Inr (lk, l')"
  shows "links_loop s links = None"
proof -
  have l': "l' = s"
    using links_body_line[OF assms(3)] assms(2) find_char_None[of "CHR '';''" s]
    by (simp add: erase0_def)
  have "ln \<noteq> s" if "links_loop ln ls = Some r" for ln ls r
  proof (rule links_loop.raw_induct[where P = "\<lambda>ln ls r. ln \<noteq> s", OF _ that])
    fix f :: "string \<Rightarrow> Link list \<Rightarrow> (cpp_error + Link list) option" and ln ls r
    assume IH: "\<And>a b y. f a b = Some y \<Longrightarrow> a \<noteq> s"
      and step: "(if ln = [] then Some (Inr ls)
          else case links_body ln of Inl e \<Rightarrow> Some (Inl e)
               | Inr (link, line') \<Rightarrow> f line' (ls @ [link])) = Some r"
    show "ln \<noteq> s"
    proof
      assume "ln = s"
      with step assms l' have "f s (ls @ [lk]) = Some r" by simp
      from IH[OF this] show False by simp
    qed
  qed
  then show ?thesis by (cases "links_loop s links") auto
qed

lemma links_loop_unterminated_example: "links_loop ''0,1,False;1,2,True'' [] = None"
proof -
  have b: "links_body ''0,1,False;1,2,True'' =
      Inr (\<lparr> Link_nts = (0, 1), Link_long_range = False \<rparr>, ''1,2,True'')"
    by code_simp
  have b2: "links_body ''1,2,True'' = Inr (\<lparr> Link_nts = (1, 2), Link_long_range = True \<rparr>, ''1,2,True'')"
    by code_simp
  have "links_loop ''1,2,True'' [\<lparr> Link_nts = (0, 1), Link_long_range = False \<rparr>] = None"
    by (rule links_loop_unterminated_record[OF _ _ b2]) simp_all
  then show ?thesis by (subst links_loop.simps) (simp add: b)
qed

text \<open>
  Claim C9 says that the loop never moves past the first link record, so that it does
  not terminate on a line with more than one record. It does move: \<open>line.erase(0, index+1)\<close>
  removes the record that was read together with its \<open>;\<close>. On a line with two records the
  loop ends after two passes with both links.
\<close>

theorem C9_two_records_are_read:
  "links_loop ''0,1,False;1,2,True;'' [] =
     Some (Inr [\<lparr> Link_nts = (0, 1), Link_long_range = False \<rparr>,
                \<lparr> Link_nts = (1, 2), Link_long_range = True \<rparr>])"
  by code_simp

text \<open>
  C9 as amended: on a links line in which every record is terminated by \<open>;\<close>, the loop
  terminates (normally, or by an exception of \<open>stoi\<close>), and when it ends normally it has
  appended one link for each \<open>;\<close> of the line.
\<close>

theorem C9_links_loop_terminates:
  "terminated line \<Longrightarrow>
     \<exists>r. links_loop line links = Some r \<and>
         (case r of Inl e \<Rightarrow> True
          | Inr ls \<Rightarrow> length ls = length links + count_list line CHR '';'')"
proof (induction "length line" arbitrary: line links rule: less_induct)
  case less
  show ?case
  proof (cases "line = []")
    case True
    then show ?thesis by (subst links_loop.simps) simp
  next
    case False
    show ?thesis
    proof (cases "links_body line")
      case (Inl e)
      with False show ?thesis by (subst links_loop.simps) simp
    next
      case (Inr p)
      obtain lk line' where p: "p = (lk, line')" by (cases p)
      from Inr p have l': "line' = erase0 line (find_char CHR '';'' line)"
        using links_body_line by blast
      from erase0_terminated[OF less.prems False] l'
      have t: "terminated line'" and shorter: "length line' < length line"
        and cnt: "count_list line CHR '';'' = Suc (count_list line' CHR '';'')" by auto
      from less.hyps[OF shorter t, of "links @ [lk]"]
      obtain r where r: "links_loop line' (links @ [lk]) = Some r"
        "case r of Inl e \<Rightarrow> True
         | Inr ls \<Rightarrow> length ls = length (links @ [lk]) + count_list line' CHR '';''"
        by blast
      have "links_loop line links = Some r"
        using False Inr p r(1) by (subst links_loop.simps) simp
      with r(2) cnt show ?thesis by (auto split: sum.splits)
    qed
  qed
qed

theorem C9_links_loop_terminates_witness:
  "terminated ''0,1,False;1,2,True;'' \<and>
     (\<exists>r. links_loop ''0,1,False;1,2,True;'' [] = Some r \<and>
         (case r of Inl e \<Rightarrow> True
          | Inr ls \<Rightarrow> length ls = length ([] :: Link list) + count_list ''0,1,False;1,2,True;'' CHR '';''))"
proof -
  have t: "terminated ''0,1,False;1,2,True;''" by (simp add: terminated_def)
  from C9_links_loop_terminates[OF t, of "[]"] t show ?thesis by blast
qed


subsection \<open>The poly-C term of the hairpin energy\<close>

text \<open>
  \<open>GHL\<close> finds no loop to be poly-C: a character of the sequence is never equal to the
  enumerator \<open>BASE_C\<close>, whose value is \<open>2\<close>, unless it is the control character of code 2.
\<close>

lemma GHL_polyC_never:
  assumes "i + 1 < j" and "of_char (RNA_seq r ! (i + 1)) \<noteq> (2::nat)"
  shows "\<not> GHL_polyC r i j"
proof -
  have "i + 1 \<in> set [i + 1 ..< j]" using assms(1) by simp
  moreover have "int (of_char (RNA_seq r ! (i + 1))) \<noteq> base_value BASE_C"
    using assms(2) by simp
  ultimately show ?thesis unfolding GHL_polyC_def list_all_iff by blast
qed

text \<open>
  Claim C8 says that \<open>GHL\<close> adds the poly-C term when the loop nucleotides are all C. On
  the sequence \<open>GCCCC\<close> the hairpin closed by \<open>(0, 4)\<close> has the loop \<open>CCC\<close> of size 3, and
  \<open>GHL\<close> returns the hairpin and triloop terms (the pair G-C has no terminal penalty)
  without \<open>polyC_penalty\<close>, whatever the parameter tables are.
\<close>

theorem C8_GHL_omits_polyC:
  "GHL (RNA_new name ''GCCCC'' tables rt) 0 4 =
     Inr (nrjp_hairpin37 tables 2 + nrjp_triloop37 tables 2 1 1 1 1)"
  by (simp add: GHL_def RNA_new_def GHL_polyC_def RNA_allowed_basepair_def uint_sub_def Let_def
      Gpenalty_def pair_type_def pair_map_def base_type_def bidx_def upt_rec
      tab_def bindE_def len_in_def base_in_def)


subsection \<open>The two engines and the back-recursion on \<open>AAAAA\<close>\<close>

text \<open>
  The sequence has one subsequence of length 5 and none longer: each engine runs the
  body of its loops once, for \<open>i = 0\<close> and \<open>j = 4\<close>, and \<open>GHL(0, 4)\<close> is a loop of size 3.
\<close>


lemma GHL_AAAAA:
  "GHL (RNA_new name ''AAAAA'' tables rt) 0 4 =
     Inr (nrjp_hairpin37 tables 2 + nrjp_triloop37 tables 0 0 0 0 0)"
  by (simp add: GHL_def RNA_new_def GHL_polyC_def RNA_allowed_basepair_def uint_sub_def Let_def
      Gpenalty_def pair_type_def pair_map_def base_type_def bidx_def upt_rec
      tab_def bindE_def len_in_def base_in_def)

lemma nested_single: "nested [a] f = map (\<lambda>b. (a, b)) (f a)"
  by (simp add: nested_def)

lemma nested_Nil: "nested [] f = []"
  by (simp add: nested_def)

lemma ON4_cell_AAAAA:
  "ON4_cell (RNA_new name ''AAAAA'' tables rt) 5 0 t =
     Inr (let r = RNA_new name ''AAAAA'' tables rt;
              q = boltz r (nrjp_hairpin37 tables 2 + nrjp_triloop37 tables 0 0 0 0 0);
              t = assign t M_Qb 0 4 q;
              t = add_to t M_Qm 0 4 (q * boltz r (nrjp_a2 tables));
              t = assign t M_Q 0 4 1
          in add_to t M_Q 0 4 q)"
proof -
  have l: "[0 ..< (1::nat)] = [0]" "[4 ..< (5::nat)] = [4]" by (simp_all add: upt_rec)
  show ?thesis
    unfolding ON4_cell_def Let_def
    apply (simp add: GHL_AAAAA bindE_def l nested_single ON4_Qm_step_def ON4_Q_step_def Let_def)
    apply (simp add: add_to_def assign_def RNA_new_def)
    done
qed

lemma boltz_pos: "0 < boltz r g"
  by (simp add: boltz_def)

lemma fold_assign_other:
  "M \<noteq> M' \<Longrightarrow> fold (\<lambda>i t. assign t M' (f i) (g i) (v i)) xs t M = t M"
  by (induction xs arbitrary: t) (simp_all add: assign_def)

lemma pf_seed_other: "M \<noteq> M_Q \<Longrightarrow> pf_seed n M = (\<lambda>i j. 0)"
  unfolding pf_seed_def Let_def by (simp add: fold_assign_other zero_store_def)

lemma foldE_single: "foldE f [x] t = f x t"
  by (cases "f x t") simp_all

lemma ON4_AAAAA:
  fixes name tables rt
  defines "r \<equiv> RNA_new name ''AAAAA'' tables rt"
  defines "q \<equiv> boltz r (nrjp_hairpin37 tables 2 + nrjp_triloop37 tables 0 0 0 0 0)"
  shows "\<exists>t. compute_partition_function_noPK_ON4 r = Inr t \<and>
             t M_Q 0 4 = 1 + q \<and> t M_Qb 0 4 = q \<and> t M_Qm 0 4 = q * boltz r (nrjp_a2 tables)"
proof -
  have n: "RNA_n r = 5" by (simp add: r_def RNA_new_def)
  have l: "[5 ..< (6::nat)] = [5]" "[0 ..< (1::nat)] = [0]" by (simp_all add: upt_rec)
  have "compute_partition_function_noPK_ON4 r =
        Inr (let t = assign (pf_seed 5) M_Qb 0 4 q;
                 t = add_to t M_Qm 0 4 (q * boltz r (nrjp_a2 tables));
                 t = assign t M_Q 0 4 1
             in add_to t M_Q 0 4 q)"
    unfolding compute_partition_function_noPK_ON4_def Let_def n
    by (simp add: l foldE_single ON4_cell_AAAAA[of name tables rt, folded r_def] Let_def q_def)
  then show ?thesis
    by (simp add: Let_def add_to_def assign_def pf_seed_other)
qed

lemma nested_empty: "(\<And>a. a \<in> set outer \<Longrightarrow> inner a = []) \<Longrightarrow> nested outer inner = []"
  by (simp add: nested_def)

lemma ON3_cell_AAAAA:
  "ON3_cell (RNA_new name ''AAAAA'' tables rt) 5 0 t =
     Inr (let r = RNA_new name ''AAAAA'' tables rt;
              q = boltz r (nrjp_hairpin37 tables 2 + nrjp_triloop37 tables 0 0 0 0 0);
              t = assign t M_Qb 0 4 q;
              t = add_to t M_Qs 0 4 q;
              t = add_to t M_Qms 0 4 (q * boltz r (nrjp_a2 tables));
              t = add_to t M_Qm 0 4 (t M_Qms 0 4);
              t = assign t M_Q 0 4 1
          in add_to t M_Q 0 4 (t M_Qs 0 4))"
proof -
  have l: "[0 ..< (1::nat)] = [0]" "[4 ..< (5::nat)] = [4]" by (simp_all add: upt_rec)
  have e1: "nested [0 + 1 ..< 0 + 5] (\<lambda>d. [max (d + 4) (4 - 4) ..< 4]) = []"
    by (rule nested_empty) auto
  have e2: "nested [0 + 1 ..< 0 + 5] (\<lambda>d. [d + 4 ..< 4 - 4]) = []"
    by (rule nested_empty) auto
  have e3: "nested [4 - 4 ..< 4] (\<lambda>e. [0 + 5 ..< e - 3]) = []"
    by (rule nested_empty) auto
  have j: "0 + 5 - 1 = (4::nat)" by simp
  show ?thesis
    unfolding ON3_cell_def Let_def j e1 e2 e3
    apply (simp add: GHL_AAAAA bindE_def l ON3_Qm_step_def ON3_Q_step_def Let_def)
    apply (simp add: add_to_def assign_def RNA_new_def)
    done
qed

lemma ON3_AAAAA:
  fixes name tables rt
  defines "r \<equiv> RNA_new name ''AAAAA'' tables rt"
  defines "q \<equiv> boltz r (nrjp_hairpin37 tables 2 + nrjp_triloop37 tables 0 0 0 0 0)"
  shows "\<exists>t. compute_partition_function_noPK_ON3 r = Inr t \<and>
             t M_Q 0 4 = 1 + q \<and> t M_Qb 0 4 = q \<and> t M_Qm 0 4 = q * boltz r (nrjp_a2 tables)"
proof -
  have n: "RNA_n r = 5" by (simp add: r_def RNA_new_def)
  have l: "[5 ..< (6::nat)] = [5]" "[0 ..< (1::nat)] = [0]" by (simp_all add: upt_rec)
  have s: "ON3_shift (pf_seed 5) M = (\<lambda>i j. 0)" if "M \<noteq> M_Q" for M
    using that by (simp add: ON3_shift_def set_zero_def copy_matrix_def pf_seed_other)
  have "compute_partition_function_noPK_ON3 r =
        Inr (let t = assign (ON3_shift (pf_seed 5)) M_Qb 0 4 q;
              t = add_to t M_Qs 0 4 q;
              t = add_to t M_Qms 0 4 (q * boltz r (nrjp_a2 tables));
              t = add_to t M_Qm 0 4 (t M_Qms 0 4);
              t = assign t M_Q 0 4 1
          in add_to t M_Q 0 4 (t M_Qs 0 4))"
    unfolding compute_partition_function_noPK_ON3_def Let_def n
    by (simp add: l foldE_single ON3_cell_AAAAA[of name tables rt, folded r_def] Let_def q_def)
  then show ?thesis
    by (simp add: Let_def add_to_def assign_def s)
qed

lemma divE_ok: "d \<noteq> 0 \<Longrightarrow> divE x d = Inr (x / d)"
  by (simp add: divE_def)

lemma post_cell_short: "l \<le> 4 \<Longrightarrow> post_cell r l i t = Inr t"
proof -
  assume "l \<le> 4"
  then have "[i ..< i + l - 1 - 3] = []" "[i + 1 ..< i + l - 1 - 4] = []" by simp_all
  then show ?thesis
    by (simp only: post_cell_def Let_def nested_Nil foldE.simps bindE_def sum.case)
qed

lemma foldE_skip: "(\<And>x t. x \<in> set xs \<Longrightarrow> f x t = Inr t) \<Longrightarrow> foldE f xs t = Inr t"
  by (induction xs arbitrary: t) simp_all

lemma post_first_cell:
  assumes "t M_P 0 4 = 1" "t M_Pm 0 4 = 0" "t M_Pb 0 4 = 0"
    and "t M_Q 0 4 = 1 + q" "t M_Qb 0 4 = q" "t M_Qm 0 4 = w" "0 < q" "w \<noteq> 0"
  shows "\<exists>t'. post_cell r 5 0 t = Inr t' \<and> t' M_Pb 0 4 = q / (1 + q)"
proof -
  have l: "[0 ..< (1::nat)] = [0]" "[4 ..< (5::nat)] = [4]" by (simp_all add: upt_rec)
  have e: "nested [0 + 1 ..< 4 - 4] (\<lambda>d. [d + 4 ..< 4]) = []" by (rule nested_empty) auto
  have j: "0 + 5 - 1 = (4::nat)" by simp
  have q1: "1 + q \<noteq> 0" using assms(7) by simp
  show ?thesis
    unfolding post_cell_def Let_def j e
    using assms q1
    by (simp add: l nested_single foldE_single post_P_step_def Let_def bindE_def divE_def
        add_to_def assign_def)
qed

text \<open>
  Claim C4 says that the posterior of the pseudoknot-free mode has \<open>p(i, j) = 0\<close> whenever
  \<open>|i - j| < 4\<close> and whenever the nucleotides at \<open>i\<close> and \<open>j\<close> are not one of the six pairs
  AU, UA, CG, GC, GU, UG. On the sequence \<open>AAAAA\<close> the ends \<open>0\<close> and \<open>4\<close> are both \<open>A\<close>, a pair
  that \<open>pair_map\<close> sends to \<open>PAIR_OTHER\<close>. Both engines give the hairpin closed by
  \<open>(0, 4)\<close> its Boltzmann weight \<open>q = exp(-GHL(0, 4) / RT)\<close>, so that \<open>Q(0, 4) = 1 + q\<close>, and
  the back-recursion returns \<open>p(0, 4) = q / (1 + q)\<close>, which is positive. Every table read on
  the way is inside its table. The recursions of this mode never test the pair type.
  This holds for every parameter table and every positive value of \<open>RT\<close>.
\<close>

theorem C4_unpairable_ends_pair:
  assumes "0 < rt"
  shows "let r = RNA_new name ''AAAAA'' tables rt;
             q = exp (- (nrjp_hairpin37 tables 2 + nrjp_triloop37 tables 0 0 0 0 0) / rt)
         in RNA_bseq r ! 0 = BASE_A \<and> RNA_bseq r ! 4 = BASE_A \<and> pair_type r 0 4 = PAIR_OTHER \<and>
            (\<exists>t. compute_partition_function_noPK_ON4 r = Inr t \<and> t M_Q 0 4 = 1 + q) \<and>
            (\<exists>t. compute_partition_function_noPK_ON3 r = Inr t \<and> t M_Q 0 4 = 1 + q) \<and>
            (\<exists>P. compute_posterior_noPK_ON4 r fast = Inr P \<and> P 0 4 = q / (1 + q)) \<and>
            0 < q / (1 + q)"
proof -
  define r where "r = RNA_new name ''AAAAA'' tables rt"
  define q where "q = exp (- (nrjp_hairpin37 tables 2 + nrjp_triloop37 tables 0 0 0 0 0) / rt)"
  have qb: "q = boltz r (nrjp_hairpin37 tables 2 + nrjp_triloop37 tables 0 0 0 0 0)"
    by (simp add: q_def boltz_def r_def RNA_new_def)
  have qpos: "0 < q" by (simp add: q_def)
  have n: "RNA_n r = 5" by (simp add: r_def RNA_new_def)
  have pt: "RNA_bseq r ! 0 = BASE_A" "RNA_bseq r ! 4 = BASE_A" "pair_type r 0 4 = PAIR_OTHER"
    by (simp_all add: r_def RNA_new_def pair_type_def pair_map_def base_type_def)
  obtain t4 where t4: "compute_partition_function_noPK_ON4 r = Inr t4" "t4 M_Q 0 4 = 1 + q"
    "t4 M_Qb 0 4 = q" "t4 M_Qm 0 4 = q * boltz r (nrjp_a2 tables)"
    using ON4_AAAAA[of name tables rt] unfolding r_def[symmetric] qb[symmetric] by blast
  obtain t3 where t3: "compute_partition_function_noPK_ON3 r = Inr t3" "t3 M_Q 0 4 = 1 + q"
    "t3 M_Qb 0 4 = q" "t3 M_Qm 0 4 = q * boltz r (nrjp_a2 tables)"
    using ON3_AAAAA[of name tables rt] unfolding r_def[symmetric] qb[symmetric] by blast
  obtain t where t: "(if fast then compute_partition_function_noPK_ON3 r
            else compute_partition_function_noPK_ON4 r) = Inr t" "t M_Q 0 4 = 1 + q"
    "t M_Qb 0 4 = q" "t M_Qm 0 4 = q * boltz r (nrjp_a2 tables)"
    using t3 t4 by (cases fast) auto
  define t0 where "t0 = assign (set_zero (set_zero (set_zero t M_P) M_Pb) M_Pm) M_P 0 (5 - 1) 1"
  have "boltz r (nrjp_a2 tables) \<noteq> 0" using boltz_pos[of r "nrjp_a2 tables"] by simp
  then have w: "q * boltz r (nrjp_a2 tables) \<noteq> 0" using qpos by simp
  have "\<exists>t'. post_cell r 5 0 t0 = Inr t' \<and> t' M_Pb 0 4 = q / (1 + q)"
    by (rule post_first_cell[where w = "q * boltz r (nrjp_a2 tables)"])
      (use t qpos w in \<open>simp_all add: t0_def assign_def set_zero_def\<close>)
  then obtain t1 where t1: "post_cell r 5 0 t0 = Inr t1" "t1 M_Pb 0 4 = q / (1 + q)" by blast
  have lst: "rev [1 ..< 5 + 1] = [5, 4, 3, 2, Suc 0]" "[0 ..< 5 + 1 - 5] = [0::nat]"
    by (simp_all add: upt_rec)
  have rest: "foldE (\<lambda>l. foldE (post_cell r l) [0 ..< 5 + 1 - l]) [4, 3, 2, Suc 0] t1 = Inr t1"
    by (rule foldE_skip) (auto intro!: foldE_skip post_cell_short)
  have loop: "foldE (\<lambda>l. foldE (post_cell r l) [0 ..< 5 + 1 - l]) (rev [1 ..< 5 + 1]) t0 = Inr t1"
    unfolding lst(1) using t1(1) rest by (simp add: lst(2) foldE_single)
  have "compute_posterior_noPK_ON4 r fast = Inr (t1 M_Pb)"
    unfolding compute_posterior_noPK_ON4_def t(1) bindE_def sum.case Let_def n
      t0_def[symmetric] loop
    by simp
  then have post: "\<exists>P. compute_posterior_noPK_ON4 r fast = Inr P \<and> P 0 4 = q / (1 + q)"
    using t1(2) by blast
  have "0 < q / (1 + q)" using qpos by simp
  then show ?thesis
    unfolding Let_def r_def[symmetric] q_def[symmetric]
    using pt t4(1,2) t3(1,2) post by blast
qed

text \<open>With \<open>RT = 1\<close>: the probability of the pair \<open>(0, 4)\<close> of \<open>AAAAA\<close> is positive.\<close>

theorem C4_unpairable_ends_pair_witness:
  "0 < (1::real) \<and>
   (\<forall>tables fast.
      pair_type (RNA_new ''rna'' ''AAAAA'' tables 1) 0 4 = PAIR_OTHER \<and>
      (\<exists>P. compute_posterior_noPK_ON4 (RNA_new ''rna'' ''AAAAA'' tables 1) fast = Inr P \<and> 0 < P 0 4))"
proof -
  have p: "0 < (1::real)" by simp
  have "pair_type (RNA_new ''rna'' ''AAAAA'' tables 1) 0 4 = PAIR_OTHER \<and>
      (\<exists>P. compute_posterior_noPK_ON4 (RNA_new ''rna'' ''AAAAA'' tables 1) fast = Inr P \<and> 0 < P 0 4)"
    for tables fast
    using C4_unpairable_ends_pair[OF p, of "''rna''" tables fast] unfolding Let_def by auto
  then show ?thesis using p by blast
qed

subsection \<open>A read outside of a table\<close>


lemma GHL_AAAAAA:
  "GHL (RNA_new name ''AAAAAA'' tables rt) 0 5 = Inl index_out_of_bounds"
  by (simp add: GHL_def RNA_new_def GHL_polyC_def RNA_allowed_basepair_def uint_sub_def Let_def
      Gpenalty_def pair_type_def pair_map_def base_type_def bidx_def upt_rec
      tab_def bindE_def len_in_def base_in_def pair_in_def)

lemma ON4_cell_5:
  assumes "GHL r i (i + 4) = Inr g"
  shows "\<exists>t'. ON4_cell r 5 i t = Inr t'"
proof -
  have j: "i + 5 - 1 = i + 4" by simp
  show ?thesis unfolding ON4_cell_def Let_def j assms by (simp add: bindE_def)
qed

lemma ON3_cell_5:
  assumes "GHL r i (i + 4) = Inr g"
  shows "\<exists>t'. ON3_cell r 5 i t = Inr t'"
proof -
  have j: "i + 5 - 1 = i + 4" by simp
  have e1: "nested [i + 1 ..< i + 5] (\<lambda>d. [max (d + 4) (i + 4 - 4) ..< i + 4]) = []"
    by (rule nested_empty) auto
  have e2: "nested [i + 1 ..< i + 5] (\<lambda>d. [d + 4 ..< i + 4 - 4]) = []"
    by (rule nested_empty) auto
  have e3: "nested [i + 4 - 4 ..< i + 4] (\<lambda>e. [i + 5 ..< e - 3]) = []"
    by (rule nested_empty) auto
  have e4: "[8 ..< 5 - (6::nat)] = []" by simp
  show ?thesis
    unfolding ON3_cell_def Let_def j assms e1 e2 e3 e4
    by (simp add: bindE_def)
qed

lemma cell_6_fails:
  assumes "GHL r 0 5 = Inl err"
  shows "ON4_cell r 6 0 t = Inl err" "ON3_cell r 6 0 t = Inl err"
proof -
  have j: "0 + 6 - 1 = (5::nat)" by simp
  show "ON4_cell r 6 0 t = Inl err" unfolding ON4_cell_def Let_def j assms by (simp add: bindE_def)
  show "ON3_cell r 6 0 t = Inl err" unfolding ON3_cell_def Let_def j assms by (simp add: bindE_def)
qed

lemma GHL_AAAAAA_5:
  "\<exists>g. GHL (RNA_new name ''AAAAAA'' tables rt) 0 (0 + 4) = Inr g"
  "\<exists>g. GHL (RNA_new name ''AAAAAA'' tables rt) 1 (1 + 4) = Inr g"
  by (simp_all add: GHL_def RNA_new_def GHL_polyC_def RNA_allowed_basepair_def uint_sub_def Let_def
      Gpenalty_def pair_type_def pair_map_def base_type_def bidx_def upt_rec
      tab_def bindE_def len_in_def base_in_def pair_in_def)

text \<open>
  One nucleotide more: on \<open>AAAAAA\<close> both engines call \<open>GHL(0, 5)\<close>, a loop of size 4, which
  reads \<open>mismatch_hairpin37\<close> at the pair type of \<open>(A, A)\<close>, that is at \<open>PAIR_OTHER\<close>.
\<close>

lemma noPK_reads_outside_tables:
  "compute_posterior_noPK_ON4 (RNA_new name ''AAAAAA'' tables rt) fast = Inl index_out_of_bounds"
proof -
  define r where "r = RNA_new name ''AAAAAA'' tables rt"
  have n: "RNA_n r = 6" by (simp add: r_def RNA_new_def)
  have l: "[5 ..< (7::nat)] = [5, 6]" "[0 ..< (2::nat)] = [0, 1]"
    by (simp_all add: upt_rec)
  obtain g0 g1 where g: "GHL r 0 (0 + 4) = Inr g0" "GHL r 1 (1 + 4) = Inr g1"
    using GHL_AAAAAA_5[of name tables rt] unfolding r_def by blast
  have bad: "GHL r 0 5 = Inl index_out_of_bounds" unfolding r_def by (rule GHL_AAAAAA)
  have 4: "compute_partition_function_noPK_ON4 r = Inl index_out_of_bounds"
  proof -
    obtain t1 where t1: "ON4_cell r 5 0 (pf_seed 6) = Inr t1" using ON4_cell_5[OF g(1)] by blast
    obtain t2 where t2: "ON4_cell r 5 (Suc 0) t1 = Inr t2" using ON4_cell_5[OF g(2), of t1] by auto
    show ?thesis
      unfolding compute_partition_function_noPK_ON4_def Let_def n
      by (simp add: l t1 t2 cell_6_fails(1)[OF bad])
  qed
  have 3: "compute_partition_function_noPK_ON3 r = Inl index_out_of_bounds"
  proof -
    obtain t1 where t1: "ON3_cell r 5 0 (ON3_shift (pf_seed 6)) = Inr t1" using ON3_cell_5[OF g(1)] by blast
    obtain t2 where t2: "ON3_cell r 5 (Suc 0) t1 = Inr t2" using ON3_cell_5[OF g(2), of t1] by auto
    show ?thesis
      unfolding compute_partition_function_noPK_ON3_def Let_def n
      by (simp add: l t1 t2 cell_6_fails(2)[OF bad])
  qed
  show ?thesis
    unfolding r_def[symmetric] compute_posterior_noPK_ON4_def using 3 4 by (simp add: bindE_def)
qed


subsection \<open>The Pareto set under \<open>add_solution\<close>\<close>

lemma vec_erase_append:
  "i < length xs \<Longrightarrow> vec_erase (xs @ ys) i = vec_erase xs i @ ys"
  by (simp add: vec_erase_def)

lemma length_vec_erase: "i < length xs \<Longrightarrow> length (vec_erase xs i) = length xs - 1"
  by (simp add: vec_erase_def)

text \<open>Erasing positions in decreasing order inside a prefix leaves the rest alone.\<close>

lemma foldl_vec_erase_append:
  "sorted_wrt (>) idx \<Longrightarrow> \<forall>i \<in> set idx. i < length xs \<Longrightarrow>
     foldl vec_erase (xs @ ys) idx = foldl vec_erase xs idx @ ys"
proof (induction idx arbitrary: xs)
  case Nil
  then show ?case by simp
next
  case (Cons i idx)
  have b: "\<forall>k \<in> set idx. k < length (vec_erase xs i)"
    using Cons.prems by (auto simp: length_vec_erase)
  have d: "sorted_wrt (>) idx" using Cons.prems by simp
  have "foldl vec_erase (vec_erase xs i @ ys) idx = foldl vec_erase (vec_erase xs i) idx @ ys"
    by (rule Cons.IH[OF d b])
  then show ?case using Cons.prems by (simp add: vec_erase_append)
qed

lemma positions_snoc:
  "filter (\<lambda>i. Q ((xs @ [x]) ! i)) [0 ..< length (xs @ [x])] =
     filter (\<lambda>i. Q (xs ! i)) [0 ..< length xs] @ (if Q x then [length xs] else [])"
proof -
  have "filter (\<lambda>i. Q ((xs @ [x]) ! i)) [0 ..< length xs] = filter (\<lambda>i. Q (xs ! i)) [0 ..< length xs]"
    by (rule filter_cong) (auto simp: nth_append)
  then show ?thesis by simp
qed

lemma positions_desc: "sorted_wrt (>) (rev (filter (\<lambda>i. Q (P ! i)) [0 ..< length P]))"
proof -
  have "sorted_wrt (<) (filter (\<lambda>i. Q (P ! i)) [0 ..< length P])"
    by (rule sorted_wrt_filter) simp
  then show ?thesis by (simp add: sorted_wrt_rev)
qed

text \<open>Erasing the positions that satisfy \<open>Q\<close>, last one first, is a filter.\<close>

lemma erase_positions:
  "foldl vec_erase P (rev (filter (\<lambda>i. Q (P ! i)) [0 ..< length P])) = filter (\<lambda>x. \<not> Q x) P"
proof (induction P rule: rev_induct)
  case Nil
  then show ?case by simp
next
  case (snoc x xs)
  show ?case
  proof (cases "Q x")
    case True
    then show ?thesis using snoc by (simp only: positions_snoc) (simp add: vec_erase_def)
  next
    case False
    have "foldl vec_erase (xs @ [x]) (rev (filter (\<lambda>i. Q (xs ! i)) [0 ..< length xs])) =
          foldl vec_erase xs (rev (filter (\<lambda>i. Q (xs ! i)) [0 ..< length xs])) @ [x]"
      by (rule foldl_vec_erase_append) (use positions_desc[of Q xs] in auto)
    with False snoc show ?thesis by (simp only: positions_snoc) simp
  qed
qed

text \<open>The two-stage erasure of the code is the erasure of all positions, last one first.\<close>

lemma erase_as_coded:
  assumes "idx \<noteq> []"
  shows "vec_erase (foldl (\<lambda>p i. vec_erase p (idx ! i)) P (rev [1 ..< length idx])) (idx ! 0) =
         foldl vec_erase P (rev idx)"
proof -
  have "map ((!) idx) [1 ..< length idx] = tl idx"
    by (rule nth_equalityI) (auto simp: nth_tl)
  then have "map ((!) idx) (rev [1 ..< length idx]) = rev (tl idx)"
    by (simp flip: rev_map)
  then have "foldl (\<lambda>p i. vec_erase p (idx ! i)) P (rev [1 ..< length idx]) =
             foldl vec_erase P (rev (tl idx))"
    by (metis foldl_map)
  moreover have "rev idx = rev (tl idx) @ [idx ! 0]"
    using assms by (cases idx) auto
  ultimately show ?thesis by simp
qed

lemma add_solution_pareto:
  "MOIP_pareto (add_solution m s) = filter (\<lambda>p. \<not> SS_gt s p) (MOIP_pareto m) @ [s]"
proof -
  let ?P = "MOIP_pareto m"
  let ?idx = "filter (\<lambda>i. SS_gt s (?P ! i)) [0 ..< length ?P]"
  show ?thesis
  proof (cases "?idx = []")
    case True
    then have "foldl vec_erase ?P (rev ?idx) = ?P" by simp
    then have "filter (\<lambda>p. \<not> SS_gt s p) ?P = ?P" by (simp only: erase_positions)
    with True show ?thesis by (simp add: add_solution_def Let_def)
  next
    case False
    from erase_as_coded[OF False, of ?P] False show ?thesis
      by (simp add: add_solution_def Let_def erase_positions)
  qed
qed

lemma is_undominated_loop_iff: "is_undominated_loop P s \<longleftrightarrow> (\<forall>p \<in> set P. \<not> SS_gt p s)"
  by (induction P) auto

lemma SS_gt_irrefl: "\<not> SS_gt s s"
  by (simp add: SS_gt_def)

text \<open>
  \<open>pareto_inv\<close> says of all pairs what the claim says of pairs of distinct elements;
  since no structure dominates itself the two are the same.
\<close>

lemma pareto_inv_positions:
  "pareto_inv P \<longleftrightarrow> (\<forall>i < length P. \<forall>j < length P. i \<noteq> j \<longrightarrow> \<not> SS_gt (P ! i) (P ! j))"
proof
  assume "pareto_inv P"
  then show "\<forall>i < length P. \<forall>j < length P. i \<noteq> j \<longrightarrow> \<not> SS_gt (P ! i) (P ! j)"
    by (simp add: pareto_inv_def list_all_iff)
next
  assume h: "\<forall>i < length P. \<forall>j < length P. i \<noteq> j \<longrightarrow> \<not> SS_gt (P ! i) (P ! j)"
  have "\<not> SS_gt s t" if "s \<in> set P" "t \<in> set P" for s t
  proof -
    from that obtain i j where "i < length P" "P ! i = s" "j < length P" "P ! j = t"
      by (auto simp: in_set_conv_nth)
    with h SS_gt_irrefl show ?thesis by (cases "i = j") auto
  qed
  then show "pareto_inv P" by (simp add: pareto_inv_def list_all_iff)
qed

text \<open>One call of \<open>add_solution\<close>, made as \<open>extend_pareto\<close> makes it, keeps the invariant.\<close>

lemma add_solution_inv:
  assumes "pareto_inv (MOIP_pareto m)" "is_undominated_yet m s"
  shows "pareto_inv (MOIP_pareto (add_solution m s))"
  using assms
  by (auto simp: add_solution_pareto pareto_inv_def list_all_iff is_undominated_yet_def
      is_undominated_loop_iff SS_gt_irrefl)

subsection \<open>What \<open>solve_objective\<close> returns\<close>

lemma foldl_keeps:
  assumes "\<And>s x. g (f s x) = g s"
  shows "g (foldl f s xs) = g s"
  using assms by (induction xs arbitrary: s) auto

lemma build_structure_props:
  "\<not> is_empty_structure (build_structure m a) \<and>
   get_objective_score (build_structure m a) 1 = getValue_expr a (MOIP_obj1 m) \<and>
   get_objective_score (build_structure m a) 2 = getValue_expr a (MOIP_obj2 m)"
proof -
  define s1 where "s1 =
     foldl (\<lambda>s i. if getValue a (insertion_dv (index_of_first_components m ! i)) > 0.5
                    then insert_motif s (MOIP_insertion_sites m ! i) else s)
       SS_new [0 ..< length (MOIP_insertion_sites m)]"
  define s2 where "s2 =
     foldl (\<lambda>s (u, v). if allowed_basepair m u v
                         then (if getValue a (y m u v) > 0.5 then set_basepair s u v else s)
                         else s) s1 (moip_pairs m)"
  have "is_empty_structure s1 = is_empty_structure SS_new"
    unfolding s1_def by (rule foldl_keeps) (simp add: insert_motif_def)
  moreover have "is_empty_structure s2 = is_empty_structure s1"
    unfolding s2_def by (rule foldl_keeps) (simp add: set_basepair_def split: prod.split)
  ultimately have e: "\<not> is_empty_structure s2" by (simp add: SS_new_def SS_empty_def)
  have "build_structure m a =
      set_objective_score (set_objective_score (SS_sort s2) 2 (getValue_expr a (MOIP_obj2 m))) 1
        (getValue_expr a (MOIP_obj1 m))"
    unfolding build_structure_def Let_def s1_def s2_def by (rule refl)
  with e show ?thesis
    by (simp add: set_objective_score_def get_objective_score_def SS_sort_def)
qed

text \<open>The net effect of the additions and removals when the solver has a solution.\<close>

lemma model_remove_added:
  "IloGe e f \<noteq> obj \<Longrightarrow> bounds \<noteq> obj \<Longrightarrow> IloGe e f \<noteq> bounds \<Longrightarrow>
   model_remove bounds (model_remove obj (((items @ [obj]) @ [bounds]) @ [IloGe e f])) =
     items @ [IloGe e f]"
  by (simp add: model_remove_def)

lemma solve_objective_solved:
  assumes "k = 1 \<or> k = 2"
    and "cplex (MOIP_model m @ [solve_obj m k, solve_bounds m k lo hi]) = Some a"
  shows "solve_objective cplex m k lo hi =
           Inr (build_structure m a, m \<lparr> MOIP_model := MOIP_model m @ [forbid_clause m a] \<rparr>)"
proof -
  have r: "model_remove (solve_bounds m k lo hi) (model_remove (solve_obj m k)
      (((MOIP_model m @ [solve_obj m k]) @ [solve_bounds m k lo hi]) @ [forbid_clause m a])) =
      MOIP_model m @ [forbid_clause m a]"
    unfolding forbid_clause_def
    by (rule model_remove_added) (auto simp: solve_obj_def solve_bounds_def)
  show ?thesis
    using assms r by (auto simp add: solve_objective_def Let_def)
qed

lemma solve_objective_failed:
  assumes "k = 1 \<or> k = 2"
    and "cplex (MOIP_model m @ [solve_obj m k, solve_bounds m k lo hi]) = None"
  shows "solve_objective cplex m k lo hi =
     Inr (SS_empty, m \<lparr> MOIP_model := MOIP_model m @ [solve_obj m k, solve_bounds m k lo hi] \<rparr>)"
  using assms by (auto simp add: solve_objective_def Let_def)

lemma solve_objective_cases:
  assumes "solve_objective cplex m 2 lo hi = Inr (s, m1)"
  shows "(cplex (MOIP_model m @ [solve_obj m 2, solve_bounds m 2 lo hi]) = None \<and> is_empty_structure s
          \<and> m1 = m \<lparr> MOIP_model := MOIP_model m @ [solve_obj m 2, solve_bounds m 2 lo hi] \<rparr>)
       \<or> (\<exists>a. cplex (MOIP_model m @ [solve_obj m 2, solve_bounds m 2 lo hi]) = Some a
             \<and> s = build_structure m a
             \<and> m1 = m \<lparr> MOIP_model := MOIP_model m @ [forbid_clause m a] \<rparr>)"
proof (cases "cplex (MOIP_model m @ [solve_obj m 2, solve_bounds m 2 lo hi])")
  case None
  have "solve_objective cplex m 2 lo hi =
     Inr (SS_empty, m \<lparr> MOIP_model := MOIP_model m @ [solve_obj m 2, solve_bounds m 2 lo hi] \<rparr>)"
    by (rule solve_objective_failed) (use None in auto)
  with assms None show ?thesis by (auto simp: SS_empty_def)
next
  case (Some a)
  have "solve_objective cplex m 2 lo hi =
     Inr (build_structure m a, m \<lparr> MOIP_model := MOIP_model m @ [forbid_clause m a] \<rparr>)"
    by (rule solve_objective_solved) (use Some in auto)
  with assms Some show ?thesis by auto
qed

lemma solve_objective_pareto:
  "solve_objective cplex m 2 lo hi = Inr (s, m1) \<Longrightarrow> MOIP_pareto m1 = MOIP_pareto m"
  by (drule solve_objective_cases) auto

text \<open>A solver that respects the model returns structures whose \<open>obj1\<close> is within the bounds.\<close>

lemma solve_objective_in_bounds:
  assumes "respects_model cplex" "solve_objective cplex m 2 lo hi = Inr (s, m1)"
    "\<not> is_empty_structure s"
  shows "lo \<le> get_objective_score s 1 \<and> get_objective_score s 1 \<le> hi"
proof -
  from solve_objective_cases[OF assms(2)] assms(3)
  obtain a where a: "cplex (MOIP_model m @ [solve_obj m 2, solve_bounds m 2 lo hi]) = Some a"
    and s: "s = build_structure m a" by auto
  from assms(1) a have "feasible (MOIP_model m @ [solve_obj m 2, solve_bounds m 2 lo hi]) a"
    by (simp add: respects_model_def)
  then have "satisfies a (solve_bounds m 2 lo hi)" by (simp add: feasible_def)
  with s build_structure_props[of m a] show ?thesis by (simp add: solve_bounds_def)
qed


subsection \<open>The constructor on the instance\<close>

text \<open>
  \<open>moip8\<close> is the state that \<open>MOIP_new\<close> builds for the instance. The blocks of
  \<open>define_problem_constraints\<close> are evaluated one by one.
\<close>

lemma tabs8: "yuv_rows pij8 0.1 8 [0 ..< uint_sub 8 6] 0 = ([[65, 65, 65, 0], [65, 1, 65]], 2)"
  by (simp add: uint_sub_def upt_num pij8_def yuv_sentinel_def)

lemma m8_eq: "moip8_init = moip8 \<lparr> MOIP_model := [], MOIP_obj1 := expr_num 0, MOIP_obj2 := expr_num 0 \<rparr>"
  by (simp add: moip8_init_def MOIP_init_def tabs8 site8_def moip8_def)

lemma m8_fields: "MOIP_n moip8_init = 8" "index_of_yuv moip8_init = [[65, 65, 65, 0], [65, 1, 65]]"
  "MOIP_insertion_sites moip8_init = [site8]" "index_of_Cxip moip8_init = [[0]]" "index_of_first_components moip8_init = [0]"
  by (simp_all add: m8_eq moip8_def)

lemma allowed8:
  "allowed_basepair moip8_init u v \<longleftrightarrow> (u = 0 \<and> v = 7) \<or> (u = 7 \<and> v = 0) \<or> (u = 1 \<and> v = 6) \<or> (u = 6 \<and> v = 1)"
proof -
  have up: "allowed_basepair moip8_init a b \<longleftrightarrow> (a = 0 \<and> b = 7) \<or> (a = 1 \<and> b = 6)" if "a < b" for a b
  proof (cases "a < 2 \<and> b < 8 \<and> a + 4 \<le> b")
    case False
    with that show ?thesis
      by (auto simp: allowed_basepair_def m8_fields uint_sub_def Let_def)
  next
    case True
    then consider "a = 0 \<and> b = 4" | "a = 0 \<and> b = 5" | "a = 0 \<and> b = 6" | "a = 0 \<and> b = 7"
      | "a = 1 \<and> b = 5" | "a = 1 \<and> b = 6" | "a = 1 \<and> b = 7" by force
    then show ?thesis
      by cases (simp_all add: allowed_basepair_def m8_fields uint_sub_def Let_def
          get_yuv_index_def yuv_sentinel_def)
  qed
  have sym: "allowed_basepair moip8_init u v = allowed_basepair moip8_init v u"
    by (auto simp: allowed_basepair_def get_yuv_index_def Let_def)
  show ?thesis
  proof (cases "u < v")
    case True with up[OF True] show ?thesis by auto
  next
    case False
    show ?thesis
    proof (cases "v < u")
      case True with up[OF True] sym show ?thesis by auto
    next
      case f: False
      with False have "u = v" by simp
      then show ?thesis by (auto simp add: allowed_basepair_def Let_def)
    qed
  qed
qed

lemma yidx8: "get_yuv_index moip8_init 0 7 = 0" "get_yuv_index moip8_init (Suc 0) 6 = Suc 0"
  "get_yuv_index moip8_init 7 0 = 0" "get_yuv_index moip8_init 6 (Suc 0) = Suc 0"
  by (simp_all add: get_yuv_index_def m8_fields)

lemma c1_8_0: "constraint_c1 moip8_init 0 = []"
  by (simp add: constraint_c1_def upt_num allowed8 Let_def m8_fields)

lemma c1_8_1: "constraint_c1 moip8_init (Suc 0) = []"
  by (simp add: constraint_c1_def upt_num allowed8 Let_def m8_fields)

lemma c1_8_7: "constraint_c1 moip8_init 7 = []"
  by (simp add: constraint_c1_def upt_num allowed8 Let_def m8_fields)


lemma c1_8: "map (constraint_c1 moip8_init) [0 ..< 8] = [[], [], [], [], [], [], [], []]"
  by (simp add: constraint_c1_def upt_num allowed8 Let_def m8_fields)

lemma c2_8: "map (constraint_c2 moip8_init) [0 ..< 8] =
   [[IloGe (0, [(- 1, basepair_dv 0), (1, basepair_dv 1)]) (0, [])],
    [IloGe (0, [(1, basepair_dv 0), (- 1, basepair_dv 1)]) (0, [])], [], [], [], [], [], []]"
  by (simp add: constraint_c2_def upt_num allowed8 Let_def m8_fields uint_sub_def y_def yidx8
      expr_plus_def expr_var_def expr_num_def expr_minus_var_def)

lemma c2p_8: "map (constraint_c2p moip8_init) [2 ..< 8] =
   [[], [], [], [],
    [IloGe (0, [(- 1, basepair_dv 1), (1, basepair_dv 0)]) (0, [])],
    [IloGe (0, [(1, basepair_dv 1), (- 1, basepair_dv 0)]) (0, [])]]"
  by (simp add: constraint_c2p_def upt_num allowed8 Let_def m8_fields uint_sub_def y_def yidx8
      expr_plus_def expr_var_def expr_num_def expr_minus_var_def)

lemma c3_8: "constraint_c3 moip8_init 0 0 = []"
  by (simp add: constraint_c3_def upt_num allowed8 Let_def m8_fields uint_sub_def y_def yidx8 site8_def
      expr_plus_def expr_var_def expr_num_def expr_minus_var_def)

lemma c4_8: "map (constraint_c4 moip8_init) [0 ..< 8] = [[], [], [], [], [], [], [], []]"
  by (simp add: constraint_c4_def upt_num Let_def m8_fields site8_def)

lemma c5_8: "constraint_c5 moip8_init 0 = []"
  by (simp add: constraint_c5_def Let_def m8_fields site8_def)

lemma c6_8: "constraints_c6_site moip8_init 0 = [IloLe (0, [(1, insertion_dv 0)]) (0, [(1, basepair_dv 0)])]"
  by (simp add: constraints_c6_site_def constraint_c6p_def Let_def m8_fields site8_def allowed8
      y_def yidx8 C_def get_Cpxi_index_def expr_plus_def expr_var_def expr_num_def)


lemma dpc8: "define_problem_constraints moip8_init = Inr (moip8_init \<lparr> MOIP_model := MOIP_model moip8 \<rparr>)"
  by (simp add: define_problem_constraints_def Let_def m8_fields c1_8 c2_8 c2p_8 c3_8 c4_8 c5_8 c6_8
      site8_def[THEN arg_cong[where f = Motif_comp]] moip8_def[THEN arg_cong[where f = MOIP_model]]
      m8_eq[THEN arg_cong[where f = MOIP_model]] del: upt_rec_numeral)


lemma m8c_same: "same_tables moip8_init moip8_constrained" "MOIP_pij moip8_constrained = pij8"
  by (simp_all add: same_tables_def moip8_constrained_def m8_eq moip8_def)

lemma obj1_8: "build_obj1 moip8_constrained = (0, [(10, insertion_dv 0)])"
  by (simp add: build_obj1_def moip8_constrained_def m8_fields site8_def expr_plus_def expr_num_def expr_scaled_def)

lemma pairs8: "moip_pairs moip8_constrained = [(0, 4), (0, 5), (0, 6), (0, 7), (Suc 0, 5), (Suc 0, 6), (Suc 0, 7)]"
  by (simp add: moip_pairs_def moip8_constrained_def m8_fields uint_sub_def upt_num)

lemma allowed8c: "allowed_basepair moip8_constrained = allowed_basepair moip8_init" "y moip8_constrained = y moip8_init"
  by (simp_all add: fun_eq_iff allowed_basepair_def y_def get_yuv_index_def moip8_constrained_def Let_def)

lemma obj2_8: "build_obj2 moip8_constrained = (0, [(0.9, basepair_dv 0), (0.8, basepair_dv 1)])"
  by (simp add: build_obj2_def pairs8 allowed8c allowed8 m8c_same pij8_def y_def yidx8
      expr_plus_def expr_num_def expr_scaled_def)

lemma MOIP_new_8: "MOIP_new 8 pij8 [site8] 0.1 = Inr moip8"
proof -
  have "MOIP_new 8 pij8 [site8] 0.1 = Inr (moip8_constrained \<lparr> MOIP_obj1 := build_obj1 moip8_constrained, MOIP_obj2 := build_obj2 moip8_constrained \<rparr>)"
    using dpc8 by (simp add: MOIP_new_def moip8_constrained_def flip: moip8_init_def)
  also have "moip8_constrained \<lparr> MOIP_obj1 := build_obj1 moip8_constrained, MOIP_obj2 := build_obj2 moip8_constrained \<rparr> = moip8"
    unfolding obj1_8 obj2_8 by (simp add: moip8_constrained_def m8_eq moip8_def)
  finally show ?thesis .
qed

subsection \<open>The walk of \<open>extend_pareto\<close>\<close>

text \<open>
  Both properties of the walk are proved by the induction rule of the partial function:
  a property that each unfolding of the body passes on from the recursive call to the
  caller holds of every result.
\<close>

lemma extend_pareto_keeps_inv:
  assumes "extend_pareto cplex m lo hi tr = Some r"
  shows "pareto_inv (MOIP_pareto m) \<longrightarrow>
         (case r of Inl e \<Rightarrow> True
          | Inr (m', tr') \<Rightarrow> pareto_inv (MOIP_pareto m') \<and> (\<exists>ext. tr' = tr @ ext \<and> trace_inv ext))"
proof (rule extend_pareto.raw_induct[where P = "\<lambda>cplex m lo hi tr r.
         pareto_inv (MOIP_pareto m) \<longrightarrow>
         (case r of Inl e \<Rightarrow> True
          | Inr (m', tr') \<Rightarrow> pareto_inv (MOIP_pareto m') \<and> (\<exists>ext. tr' = tr @ ext \<and> trace_inv ext))",
        OF _ assms])
  fix f :: "cplex_oracle \<Rightarrow> MOIP \<Rightarrow> real \<Rightarrow> real \<Rightarrow> pareto_trace \<Rightarrow> (cpp_error + MOIP \<times> pareto_trace) option"
    and cplex m lo hi tr r
  assume IH: "\<And>cplex m lo hi tr r. f cplex m lo hi tr = Some r \<Longrightarrow>
         pareto_inv (MOIP_pareto m) \<longrightarrow>
         (case r of Inl e \<Rightarrow> True
          | Inr (m', tr') \<Rightarrow> pareto_inv (MOIP_pareto m') \<and> (\<exists>ext. tr' = tr @ ext \<and> trace_inv ext))"
    and step: "(case solve_objective cplex m 2 lo hi of
      Inl e \<Rightarrow> Some (Inl e)
      | Inr (s, m1) \<Rightarrow>
          if \<not> is_empty_structure s
          then if is_undominated_yet m1 s
               then f cplex (add_solution m1 s) (get_objective_score s 1) hi
                     (tr @ [(s, MOIP_pareto (add_solution m1 s))])
               else Some (Inr (m1, tr))
          else Some (Inr (m1, tr))) = Some r"
  show "pareto_inv (MOIP_pareto m) \<longrightarrow>
         (case r of Inl e \<Rightarrow> True
          | Inr (m', tr') \<Rightarrow> pareto_inv (MOIP_pareto m') \<and> (\<exists>ext. tr' = tr @ ext \<and> trace_inv ext))"
  proof
    assume inv: "pareto_inv (MOIP_pareto m)"
    show "case r of Inl e \<Rightarrow> True
          | Inr (m', tr') \<Rightarrow> pareto_inv (MOIP_pareto m') \<and> (\<exists>ext. tr' = tr @ ext \<and> trace_inv ext)"
    proof (cases "solve_objective cplex m 2 lo hi")
      case (Inl e)
      with step show ?thesis by auto
    next
      case (Inr p)
      obtain s m1 where p: "p = (s, m1)" by (cases p)
      from Inr p have m1: "MOIP_pareto m1 = MOIP_pareto m" by (simp add: solve_objective_pareto)
      show ?thesis
      proof (cases "\<not> is_empty_structure s \<and> is_undominated_yet m1 s")
        case False
        with step Inr p have "r = Inr (m1, tr)" by (auto split: if_splits)
        with inv m1 show ?thesis by (simp add: trace_inv_def)
      next
        case True
        let ?e = "(s, MOIP_pareto (add_solution m1 s))"
        from True step Inr p
        have call: "f cplex (add_solution m1 s) (get_objective_score s 1) hi (tr @ [?e]) = Some r"
          by simp
        have a: "pareto_inv (MOIP_pareto (add_solution m1 s))"
          using add_solution_inv[of m1 s] inv m1 True by simp
        from IH[OF call] a
        have res: "case r of Inl e \<Rightarrow> True
          | Inr (m', tr') \<Rightarrow> pareto_inv (MOIP_pareto m') \<and>
              (\<exists>ext. tr' = (tr @ [?e]) @ ext \<and> trace_inv ext)" by blast
        show ?thesis
        proof (cases r)
          case (Inl e)
          then show ?thesis by simp
        next
          case (Inr q)
          obtain m' tr' where q: "q = (m', tr')" by (cases q)
          from res Inr q obtain ext where ext: "tr' = (tr @ [?e]) @ ext" "trace_inv ext"
            and fin: "pareto_inv (MOIP_pareto m')" by auto
          have "tr' = tr @ (?e # ext)" using ext(1) by simp
          moreover have "trace_inv (?e # ext)" using ext(2) a by (simp add: trace_inv_def)
          ultimately show ?thesis using Inr q fin by auto
        qed
      qed
    qed
  qed
qed

lemma extend_pareto_monotone:
  assumes "extend_pareto cplex m lo hi tr = Some r"
  shows "respects_model cplex \<longrightarrow>
         (case r of Inl e \<Rightarrow> True
          | Inr (m', tr') \<Rightarrow>
              (\<exists>ext. tr' = tr @ ext \<and> sorted (trace_obj1 ext) \<and>
                     (\<forall>v \<in> set (trace_obj1 ext). lo \<le> v \<and> v \<le> hi)))"
proof (rule extend_pareto.raw_induct[where P = "\<lambda>cplex m lo hi tr r.
         respects_model cplex \<longrightarrow>
         (case r of Inl e \<Rightarrow> True
          | Inr (m', tr') \<Rightarrow>
              (\<exists>ext. tr' = tr @ ext \<and> sorted (trace_obj1 ext) \<and>
                     (\<forall>v \<in> set (trace_obj1 ext). lo \<le> v \<and> v \<le> hi)))", OF _ assms])
  fix f :: "cplex_oracle \<Rightarrow> MOIP \<Rightarrow> real \<Rightarrow> real \<Rightarrow> pareto_trace \<Rightarrow> (cpp_error + MOIP \<times> pareto_trace) option"
    and cplex m lo hi tr r
  assume IH: "\<And>cplex m lo hi tr r. f cplex m lo hi tr = Some r \<Longrightarrow>
         respects_model cplex \<longrightarrow>
         (case r of Inl e \<Rightarrow> True
          | Inr (m', tr') \<Rightarrow>
              (\<exists>ext. tr' = tr @ ext \<and> sorted (trace_obj1 ext) \<and>
                     (\<forall>v \<in> set (trace_obj1 ext). lo \<le> v \<and> v \<le> hi)))"
    and step: "(case solve_objective cplex m 2 lo hi of
      Inl e \<Rightarrow> Some (Inl e)
      | Inr (s, m1) \<Rightarrow>
          if \<not> is_empty_structure s
          then if is_undominated_yet m1 s
               then f cplex (add_solution m1 s) (get_objective_score s 1) hi
                     (tr @ [(s, MOIP_pareto (add_solution m1 s))])
               else Some (Inr (m1, tr))
          else Some (Inr (m1, tr))) = Some r"
  show "respects_model cplex \<longrightarrow>
         (case r of Inl e \<Rightarrow> True
          | Inr (m', tr') \<Rightarrow>
              (\<exists>ext. tr' = tr @ ext \<and> sorted (trace_obj1 ext) \<and>
                     (\<forall>v \<in> set (trace_obj1 ext). lo \<le> v \<and> v \<le> hi)))"
  proof
    assume resp: "respects_model cplex"
    show "case r of Inl e \<Rightarrow> True
          | Inr (m', tr') \<Rightarrow>
              (\<exists>ext. tr' = tr @ ext \<and> sorted (trace_obj1 ext) \<and>
                     (\<forall>v \<in> set (trace_obj1 ext). lo \<le> v \<and> v \<le> hi))"
    proof (cases "solve_objective cplex m 2 lo hi")
      case (Inl e)
      with step show ?thesis by auto
    next
      case (Inr p)
      obtain s m1 where p: "p = (s, m1)" by (cases p)
      show ?thesis
      proof (cases "\<not> is_empty_structure s \<and> is_undominated_yet m1 s")
        case False
        with step Inr p have "r = Inr (m1, tr)" by (auto split: if_splits)
        then show ?thesis by (simp add: trace_obj1_def)
      next
        case True
        let ?e = "(s, MOIP_pareto (add_solution m1 s))"
        let ?v = "get_objective_score s 1"
        from True step Inr p have call: "f cplex (add_solution m1 s) ?v hi (tr @ [?e]) = Some r"
          by simp
        from solve_objective_in_bounds[OF resp] Inr p True have v: "lo \<le> ?v" "?v \<le> hi" by auto
        from IH[OF call] resp
        have res: "case r of Inl e \<Rightarrow> True
          | Inr (m', tr') \<Rightarrow>
              (\<exists>ext. tr' = (tr @ [?e]) @ ext \<and> sorted (trace_obj1 ext) \<and>
                     (\<forall>w \<in> set (trace_obj1 ext). ?v \<le> w \<and> w \<le> hi))" by blast
        show ?thesis
        proof (cases r)
          case (Inl e)
          then show ?thesis by simp
        next
          case (Inr q)
          obtain m' tr' where q: "q = (m', tr')" by (cases q)
          from res Inr q obtain ext where ext: "tr' = (tr @ [?e]) @ ext" "sorted (trace_obj1 ext)"
            "\<forall>w \<in> set (trace_obj1 ext). ?v \<le> w \<and> w \<le> hi"
            by auto
          have "tr' = tr @ (?e # ext)" using ext(1) by simp
          moreover have "sorted (trace_obj1 (?e # ext))"
            using ext(2,3) by (simp add: trace_obj1_def)
          moreover have "\<forall>w \<in> set (trace_obj1 (?e # ext)). lo \<le> w \<and> w \<le> hi"
            using ext(3) v by (auto simp: trace_obj1_def)
          ultimately show ?thesis using Inr q by auto
        qed
      qed
    qed
  qed
qed

subsection \<open>The exhaustive solver and the run on the instance\<close>

lemma foldl_choice_in:
  "foldl (\<lambda>best T. if c T best then T else best) S rest \<in> set (S # rest)"
  by (induction rest arbitrary: S) auto

lemma cplex_enum_respects: "respects_model (cplex_enum vars)"
  unfolding respects_model_def
proof (intro allI impI)
  fix items a
  assume "cplex_enum vars items = Some a"
  then obtain S where S: "cplex_enum_choice vars items = Some S" and a: "a = sol_of S"
    by (auto simp: cplex_enum_def)
  let ?cands = "filter (\<lambda>S. feasible items (sol_of S)) (subseqs vars)"
  from S obtain S0 rest where c: "?cands = S0 # rest"
    and "S = foldl (\<lambda>best T. if getValue_expr (sol_of T) (model_objective items) \<ge>
                                  getValue_expr (sol_of best) (model_objective items)
                               then T else best) S0 rest"
    by (auto simp: cplex_enum_choice_def split: list.splits)
  then have "S \<in> set (S0 # rest)"
    using foldl_choice_in[of "\<lambda>T best. getValue_expr (sol_of T) (model_objective items) \<ge>
                                  getValue_expr (sol_of best) (model_objective items)" S0 rest]
    by simp
  with c have "S \<in> set ?cands" by simp
  then show "feasible items a" using a by simp
qed

text \<open>
  The walk on the instance, from \<open>extend_pareto(0, 20)\<close>: the solver first returns the
  two stacked pairs without the motif (\<open>obj1 = 0\<close>), then the same pairs with the motif
  (\<open>obj1 = 10\<close>, which dominates and replaces the first structure), then fails.
\<close>

lemma run8:
  "(case extend_pareto (cplex_enum vars8) moip8 0 20 [] of
      Some (Inr (m', tr)) \<Rightarrow>
        trace_obj1 tr = [0, 10] \<and> map (map SS_objective_score1) (map snd tr) = [[0], [10]] \<and>
        map SS_objective_score1 (MOIP_pareto m') = [10]
    | _ \<Rightarrow> False)"
  by code_simp

lemma run8_result:
  obtains m' tr where "extend_pareto (cplex_enum vars8) moip8 0 20 [] = Some (Inr (m', tr))"
    and "trace_obj1 tr = [0, 10]"
proof -
  from run8 show ?thesis
    by (cases "extend_pareto (cplex_enum vars8) moip8 0 20 []") (auto split: sum.splits intro: that)
qed

lemma choice8:
  "cplex_enum_choice vars8 (MOIP_model moip8 @ [solve_obj moip8 2, solve_bounds moip8 2 0 20]) =
     Some [basepair_dv 0, basepair_dv 1]"
  by code_simp

text \<open>
  Claim C1: after every call of \<open>add_solution\<close> during the walk no element of \<open>pareto_\<close>
  dominates another one, and so for the set that \<open>extend_pareto\<close> leaves when it
  returns. The walk starts from a Pareto set with the invariant (the empty set of the
  constructor has it); \<open>tr\<close> lists the calls of \<open>add_solution\<close> with the value of
  \<open>pareto_\<close> after each.
\<close>

theorem C1_pareto_invariant:
  assumes "pareto_inv (MOIP_pareto m)"
    and "extend_pareto cplex m lambdaMin lambdaMax [] = Some (Inr (m', tr))"
  shows "trace_inv tr \<and> pareto_inv (MOIP_pareto m')"
  using extend_pareto_keeps_inv[OF assms(2)] assms(1) by auto

theorem C1_pareto_invariant_witness:
  "pareto_inv (MOIP_pareto moip8) \<and>
   (\<exists>m' tr. extend_pareto (cplex_enum vars8) moip8 0 20 [] = Some (Inr (m', tr)) \<and>
            length tr = 2 \<and> trace_inv tr \<and> pareto_inv (MOIP_pareto m'))"
proof -
  have i: "pareto_inv (MOIP_pareto moip8)" by (simp add: moip8_def pareto_inv_def)
  obtain m' tr where r: "extend_pareto (cplex_enum vars8) moip8 0 20 [] = Some (Inr (m', tr))"
    and t: "trace_obj1 tr = [0, 10]" by (rule run8_result)
  from t have "length tr = 2" by (auto simp: trace_obj1_def)
  with C1_pareto_invariant[OF i r] i r show ?thesis by blast
qed

text \<open>
  Claim C2: with a solver that respects the bounds it is given, the values of \<open>obj1\<close> of
  the structures passed to \<open>add_solution\<close> are non-decreasing in the order of the calls,
  and each is between the \<open>lambdaMin\<close> and the \<open>lambdaMax\<close> of the walk.
\<close>

theorem C2_monotone_discovery:
  assumes "respects_model cplex"
    and "extend_pareto cplex m lambdaMin lambdaMax [] = Some (Inr (m', tr))"
  shows "sorted (trace_obj1 tr) \<and> list_all (\<lambda>v. lambdaMin \<le> v \<and> v \<le> lambdaMax) (trace_obj1 tr)"
  using extend_pareto_monotone[OF assms(2)] assms(1) by (auto simp: list_all_iff)

theorem C2_monotone_discovery_witness:
  "respects_model (cplex_enum vars8) \<and>
   (\<exists>m' tr. extend_pareto (cplex_enum vars8) moip8 0 20 [] = Some (Inr (m', tr)) \<and>
            trace_obj1 tr = [0, 10] \<and> sorted (trace_obj1 tr) \<and>
            list_all (\<lambda>v. 0 \<le> v \<and> v \<le> 20) (trace_obj1 tr))"
proof -
  obtain m' tr where r: "extend_pareto (cplex_enum vars8) moip8 0 20 [] = Some (Inr (m', tr))"
    and t: "trace_obj1 tr = [0, 10]" by (rule run8_result)
  from C2_monotone_discovery[OF cplex_enum_respects r] cplex_enum_respects r t
  show ?thesis by blast
qed

subsection \<open>The constraints on closing pairs\<close>

lemma Cxip_rows_first:
  "Cxip_rows ms i0 = (rows, firsts, i') \<Longrightarrow> k < length ms \<Longrightarrow> Motif_comp (ms ! k) \<noteq> [] \<Longrightarrow>
     rows ! k ! 0 = firsts ! k"
proof (induction ms arbitrary: i0 rows firsts i' k)
  case Nil
  then show ?case by simp
next
  case (Cons x ms)
  obtain rows' firsts' i'' where r: "Cxip_rows ms (i0 + length (Motif_comp x)) = (rows', firsts', i'')"
    by (cases "Cxip_rows ms (i0 + length (Motif_comp x))") auto
  with Cons.prems(1) have rows: "rows = [i0 ..< i0 + length (Motif_comp x)] # rows'"
    and firsts: "firsts = i0 # firsts'" by auto
  show ?case
  proof (cases k)
    case 0
    with Cons.prems rows firsts show ?thesis by (simp add: upt_conv_Cons)
  next
    case (Suc k')
    with Cons.prems Cons.IH[OF r, of k'] rows firsts show ?thesis by simp
  qed
qed

lemma same_tables_allowed:
  "same_tables m m' \<Longrightarrow> allowed_basepair m' = allowed_basepair m \<and> C m' = C m \<and> y m' = y m"
  by (auto simp: same_tables_def allowed_basepair_def C_def y_def get_yuv_index_def get_Cpxi_index_def
      fun_eq_iff Let_def)

lemma define_problem_constraints_Inr:
  assumes "define_problem_constraints m = Inr m1"
  shows "same_tables m m1" "\<forall>x \<in> set (MOIP_insertion_sites m). Motif_comp x \<noteq> []"
    "i < length (MOIP_insertion_sites m) \<Longrightarrow> set (constraints_c6_site m i) \<subseteq> set (MOIP_model m1)"
  using assms
  by (auto simp: define_problem_constraints_def Let_def same_tables_def list_ex_iff split: if_splits)

lemma le_empty_forces_zero:
  assumes "satisfies a (IloLe (expr_var x) (expr_num 0))"
  shows "\<not> a x" "\<not> getValue a x > 0.5"
  using assms
  by (auto simp: getValue_expr_def expr_var_def expr_num_def getValue_def split: if_splits)

lemma MOIP_new_Inr:
  assumes "MOIP_new n pij sites theta = Inr m"
  obtains m1 where "define_problem_constraints (MOIP_init n pij sites theta) = Inr m1"
    and "m = m1 \<lparr> MOIP_obj1 := build_obj1 m1, MOIP_obj2 := build_obj2 m1 \<rparr>"
  using assms unfolding MOIP_new_def by (auto split: sum.splits)

lemma MOIP_init_fields:
  "MOIP_insertion_sites (MOIP_init n pij sites theta) = sites"
  "MOIP_n (MOIP_init n pij sites theta) = n"
  "index_of_yuv (MOIP_init n pij sites theta) = fst (yuv_rows pij theta n [0 ..< uint_sub n 6] 0)"
  "index_of_Cxip (MOIP_init n pij sites theta) = fst (Cxip_rows sites 0)"
  "index_of_first_components (MOIP_init n pij sites theta) = fst (snd (Cxip_rows sites 0))"
  by (simp_all add: MOIP_init_def Let_def split: prod.splits)

lemma MOIP_new_tables:
  assumes "MOIP_new n pij sites theta = Inr m"
  shows "same_tables (MOIP_init n pij sites theta) m"
    and "\<forall>x \<in> set sites. Motif_comp x \<noteq> []"
    and "i < length sites \<Longrightarrow> set (constraints_c6_site (MOIP_init n pij sites theta) i) \<subseteq> set (MOIP_model m)"
proof -
  from assms obtain m1 where d: "define_problem_constraints (MOIP_init n pij sites theta) = Inr m1"
    and m: "m = m1 \<lparr> MOIP_obj1 := build_obj1 m1, MOIP_obj2 := build_obj2 m1 \<rparr>"
    by (rule MOIP_new_Inr)
  from define_problem_constraints_Inr(1)[OF d] m
  show "same_tables (MOIP_init n pij sites theta) m" by (simp add: same_tables_def)
  from define_problem_constraints_Inr(2)[OF d]
  show "\<forall>x \<in> set sites. Motif_comp x \<noteq> []" by (simp add: MOIP_init_fields)
  show "set (constraints_c6_site (MOIP_init n pij sites theta) i) \<subseteq> set (MOIP_model m)"
    if "i < length sites"
    using define_problem_constraints_Inr(3)[OF d, of i] that m by (simp add: MOIP_init_fields)
qed

lemma MOIP_new_total:
  assumes "\<forall>x \<in> set sites. Motif_comp x \<noteq> []"
  shows "\<exists>m. MOIP_new n pij sites theta = Inr m"
  using assms
  by (simp add: MOIP_new_def define_problem_constraints_def Let_def list_ex_iff MOIP_init_fields)

lemma same_tables_c6:
  assumes "same_tables m m'"
  shows "constraint_c6p m' = constraint_c6p m" "constraint_c6 m' = constraint_c6 m"
    "constraints_c6_site m' = constraints_c6_site m"
proof -
  note eqs = same_tables_allowed[OF assms]
  have s: "MOIP_insertion_sites m' = MOIP_insertion_sites m"
    using assms by (simp add: same_tables_def)
  show 1: "constraint_c6p m' = constraint_c6p m"
    by (simp add: fun_eq_iff constraint_c6p_def eqs s cong: if_cong)
  show 2: "constraint_c6 m' = constraint_c6 m"
    by (simp add: fun_eq_iff constraint_c6_def eqs s cong: if_cong)
  show "constraints_c6_site m' = constraints_c6_site m"
    by (simp add: fun_eq_iff constraints_c6_site_def 1 2 s cong: if_cong)
qed

text \<open>\<open>C(i, 0)\<close> is the variable that \<open>solve_objective\<close> reads to decide whether site \<open>i\<close> is inserted.\<close>

lemma first_component_var:
  assumes "MOIP_new n pij sites theta = Inr m" "i < length sites"
  shows "C m i 0 = insertion_dv (index_of_first_components m ! i)"
proof -
  obtain rows firsts i' where r: "Cxip_rows sites 0 = (rows, firsts, i')"
    by (cases "Cxip_rows sites 0") auto
  from MOIP_new_tables(2)[OF assms(1)] assms(2) have ne: "Motif_comp (sites ! i) \<noteq> []" by simp
  from Cxip_rows_first[OF r assms(2) ne] have "rows ! i ! 0 = firsts ! i" .
  moreover from MOIP_new_tables(1)[OF assms(1)]
  have "index_of_Cxip m = rows" "index_of_first_components m = firsts"
    by (simp_all add: same_tables_def MOIP_init_fields r)
  ultimately show ?thesis by (simp add: C_def get_Cpxi_index_def)
qed

lemma tabs8_1: "yuv_rows pij8 1 8 [0 ..< uint_sub 8 6] 0 = ([[65, 65, 65, 65], [65, 65, 65]], 0)"
  by (simp add: uint_sub_def upt_rec pij8_def yuv_sentinel_def)

lemma ex8:
  "\<exists>m. MOIP_new 8 pij8 [site8b] 1 = Inr m \<and> \<not> allowed_basepair m 0 7 \<and> \<not> allowed_basepair m 2 5"
proof -
  obtain m where m: "MOIP_new 8 pij8 [site8b] 1 = Inr m"
    using MOIP_new_total[of "[site8b]" 8 pij8 1] by (auto simp: site8b_def)
  from MOIP_new_tables(1)[OF m]
  have "index_of_yuv m = [[65, 65, 65, 65], [65, 65, 65]]" "MOIP_n m = 8"
    by (simp_all add: same_tables_def MOIP_init_fields tabs8_1)
  then have "\<not> allowed_basepair m 0 7 \<and> \<not> allowed_basepair m 2 5"
    by (simp add: allowed_basepair_def Let_def get_yuv_index_def yuv_sentinel_def uint_sub_def)
  with m show ?thesis by blast
qed

text \<open>
  Claim C6, for the model \<open>m\<close> that the constructor builds and a site \<open>i\<close>. When the
  closing pair of the site is not allowed, the constraint of the site is
  \<open>C(i, 0) <= 0\<close> (the right-hand side is the empty expression), it is in the model,
  and in every solution that is feasible for a model holding the constraints of \<open>m\<close>
  the variable that \<open>solve_objective\<close> tests for the insertion of the site is not above
  \<open>0.5\<close>: the site is not inserted. When the pair from the end of component \<open>j\<close> to the
  start of component \<open>j + 1\<close> is not allowed, \<open>C(i, j) <= 0\<close> is in the model and
  \<open>C(i, j)\<close> is 0 in every such solution.
\<close>

theorem C6_closing_pairs:
  assumes "MOIP_new n pij sites theta = Inr m" and "i < length sites"
  shows "(\<not> allowed_basepair m (fst (Component_pos (Motif_comp (sites ! i) ! 0)))
                               (snd (Component_pos (last (Motif_comp (sites ! i)))))
          \<longrightarrow> constraint_c6p m i = IloLe (expr_var (C m i 0)) (expr_num 0)
              \<and> constraint_c6p m i \<in> set (MOIP_model m)
              \<and> (\<forall>items a. set (MOIP_model m) \<subseteq> set items \<and> feasible items a
                    \<longrightarrow> \<not> getValue a (insertion_dv (index_of_first_components m ! i)) > 0.5))
       \<and> (\<forall>j. j + 1 < length (Motif_comp (sites ! i))
               \<and> \<not> allowed_basepair m (snd (Component_pos (Motif_comp (sites ! i) ! j)))
                                       (fst (Component_pos (Motif_comp (sites ! i) ! (j + 1))))
          \<longrightarrow> constraint_c6 m i j = IloLe (expr_var (C m i j)) (expr_num 0)
              \<and> constraint_c6 m i j \<in> set (MOIP_model m)
              \<and> (\<forall>items a. set (MOIP_model m) \<subseteq> set items \<and> feasible items a \<longrightarrow> \<not> a (C m i j)))"
proof -
  let ?m0 = "MOIP_init n pij sites theta"
  have st: "same_tables ?m0 m" by (rule MOIP_new_tables(1)[OF assms(1)])
  have sites: "MOIP_insertion_sites m = sites"
    using st by (simp add: same_tables_def MOIP_init_fields)
  have sub: "set (constraints_c6_site m i) \<subseteq> set (MOIP_model m)"
    using MOIP_new_tables(3)[OF assms] same_tables_c6(3)[OF st] by simp
  have forced: "\<not> a x \<and> \<not> getValue a x > 0.5"
    if "IloLe (expr_var x) (expr_num 0) \<in> set (MOIP_model m)"
      "set (MOIP_model m) \<subseteq> set items" "feasible items a" for x items a
  proof -
    from that(3) have "\<forall>c \<in> set items. satisfies a c"
      by (simp add: feasible_def list_all_iff)
    with that(1,2) have "satisfies a (IloLe (expr_var x) (expr_num 0))" by blast
    then show ?thesis using le_empty_forces_zero by blast
  qed
  have A: "constraint_c6p m i \<in> set (MOIP_model m)"
    using sub by (auto simp: constraints_c6_site_def Let_def)
  have B: "constraint_c6 m i j \<in> set (MOIP_model m)" if "j + 1 < length (Motif_comp (sites ! i))" for j
    using sub that sites by (auto simp: constraints_c6_site_def Let_def)
  show ?thesis
  proof (intro conjI impI allI)
    assume na: "\<not> allowed_basepair m (fst (Component_pos (Motif_comp (sites ! i) ! 0)))
                               (snd (Component_pos (last (Motif_comp (sites ! i)))))"
    then show eq: "constraint_c6p m i = IloLe (expr_var (C m i 0)) (expr_num 0)"
      by (simp add: constraint_c6p_def sites Let_def)
    show "constraint_c6p m i \<in> set (MOIP_model m)" by (rule A)
    fix items a
    assume "set (MOIP_model m) \<subseteq> set items \<and> feasible items a"
    with forced[of "C m i 0" items a] A eq first_component_var[OF assms]
    show "\<not> getValue a (insertion_dv (index_of_first_components m ! i)) > 0.5" by simp
  next
    fix j
    assume h: "j + 1 < length (Motif_comp (sites ! i))
               \<and> \<not> allowed_basepair m (snd (Component_pos (Motif_comp (sites ! i) ! j)))
                                       (fst (Component_pos (Motif_comp (sites ! i) ! (j + 1))))"
    then show eq: "constraint_c6 m i j = IloLe (expr_var (C m i j)) (expr_num 0)"
      by (simp add: constraint_c6_def sites Let_def)
    from h show in_model: "constraint_c6 m i j \<in> set (MOIP_model m)" using B by blast
    fix items a
    assume "set (MOIP_model m) \<subseteq> set items \<and> feasible items a"
    with forced[of "C m i j" items a] in_model eq show "\<not> a (C m i j)" by simp
  qed
qed

text \<open>
  The case of the spec's scenario E4: with \<open>theta = 1\<close>, above every probability of the
  instance, no pair is allowed, and both constraints of the two-component site are of
  the form \<open>C <= 0\<close>.
\<close>

theorem C6_closing_pairs_witness:
  "\<exists>m. MOIP_new 8 pij8 [site8b] 1 = Inr m \<and> (0::nat) < length [site8b] \<and>
       \<not> allowed_basepair m 0 7 \<and> \<not> allowed_basepair m 2 5 \<and>
       constraint_c6p m 0 = IloLe (expr_var (C m 0 0)) (expr_num 0) \<and>
       constraint_c6p m 0 \<in> set (MOIP_model m) \<and>
       constraint_c6 m 0 0 = IloLe (expr_var (C m 0 0)) (expr_num 0) \<and>
       constraint_c6 m 0 0 \<in> set (MOIP_model m)"
proof -
  obtain m where m: "MOIP_new 8 pij8 [site8b] 1 = Inr m"
    and na: "\<not> allowed_basepair m 0 7" "\<not> allowed_basepair m 2 5"
    using ex8 by blast
  have i: "(0::nat) < length [site8b]" by simp
  have s: "fst (Component_pos (Motif_comp ([site8b] ! 0) ! 0)) = 0"
    "snd (Component_pos (last (Motif_comp ([site8b] ! 0)))) = 7"
    "snd (Component_pos (Motif_comp ([site8b] ! 0) ! 0)) = 2"
    "fst (Component_pos (Motif_comp ([site8b] ! 0) ! (0 + 1))) = 5"
    "0 + 1 < length (Motif_comp ([site8b] ! 0))"
    by (simp_all add: site8b_def)
  from C6_closing_pairs[OF m i] na
  have "constraint_c6p m 0 = IloLe (expr_var (C m 0 0)) (expr_num 0) \<and>
        constraint_c6p m 0 \<in> set (MOIP_model m)"
    unfolding s by blast
  moreover from C6_closing_pairs[OF m i]
  have "0 + 1 < length (Motif_comp ([site8b] ! 0))
          \<and> \<not> allowed_basepair m (snd (Component_pos (Motif_comp ([site8b] ! 0) ! 0)))
                                  (fst (Component_pos (Motif_comp ([site8b] ! 0) ! (0 + 1))))
        \<longrightarrow> constraint_c6 m 0 0 = IloLe (expr_var (C m 0 0)) (expr_num 0)
            \<and> constraint_c6 m 0 0 \<in> set (MOIP_model m)"
    by blast
  with na s(5)
  have "constraint_c6 m 0 0 = IloLe (expr_var (C m 0 0)) (expr_num 0) \<and>
        constraint_c6 m 0 0 \<in> set (MOIP_model m)"
    unfolding s(1-4) by blast
  ultimately show ?thesis using m i na by blast
qed


subsection \<open>The variables of the constructor\<close>

text \<open>
  The constructor numbers the variables \<open>y(u, v)\<close> and \<open>C(x, i)\<close> as it creates them. A
  row of \<open>index_of_yuv_\<close> holds, for each \<open>v\<close>, either the mark or a number between the
  counter before the row and the counter after it, and every number in between is the
  entry of a pair whose probability is above \<open>theta_\<close>.
\<close>


lemma yuv_row_props:
  assumes "yuv_row pij theta n u vs c = (row, c')"
  shows "length row = length vs \<and> c \<le> c' \<and> c' \<le> c + length vs \<and>
         (\<forall>k<length vs. if pij u (vs ! k) > theta then c \<le> row ! k \<and> row ! k < c'
                         else row ! k = yuv_sentinel n) \<and>
         (\<forall>d. c \<le> d \<and> d < c' \<longrightarrow> (\<exists>k<length vs. pij u (vs ! k) > theta \<and> row ! k = d))"
  using assms
proof (induction vs arbitrary: c row c')
  case Nil
  then show ?case by simp
next
  case (Cons v vs)
  show ?case
  proof (cases "pij u v > theta")
    case True
    obtain row1 c1 where r: "yuv_row pij theta n u vs (c + 1) = (row1, c1)"
      by (cases "yuv_row pij theta n u vs (c + 1)") auto
    with Cons.prems True have eq: "row = c # row1" "c' = c1" by auto
    note IH = Cons.IH[OF r]
    have len: "length row = length (v # vs)" using IH eq by simp
    have bnd: "c \<le> c'" "c' \<le> c + length (v # vs)" using IH eq by simp_all
    have ent: "if pij u ((v # vs) ! k) > theta then c \<le> row ! k \<and> row ! k < c'
               else row ! k = yuv_sentinel n" if "k < length (v # vs)" for k
    proof (cases k)
      case 0
      then show ?thesis using True eq IH by simp
    next
      case (Suc k')
      then have "k' < length vs" using that by simp
      with IH have "if pij u (vs ! k') > theta then c + 1 \<le> row1 ! k' \<and> row1 ! k' < c1
               else row1 ! k' = yuv_sentinel n" by blast
      then show ?thesis using Suc eq by (auto split: if_splits)
    qed
    have cov: "\<exists>k<length (v # vs). pij u ((v # vs) ! k) > theta \<and> row ! k = d"
      if "c \<le> d \<and> d < c'" for d
    proof (cases "d = c")
      case True
      then show ?thesis using \<open>pij u v > theta\<close> eq by (intro exI[of _ 0]) simp
    next
      case False
      then have "c + 1 \<le> d \<and> d < c1" using that eq by simp
      with IH obtain k' where "k' < length vs" "pij u (vs ! k') > theta" "row1 ! k' = d" by blast
      then show ?thesis using eq by (intro exI[of _ "Suc k'"]) simp
    qed
    show ?thesis using len bnd ent cov by blast
  next
    case False
    obtain row1 c1 where r: "yuv_row pij theta n u vs c = (row1, c1)"
      by (cases "yuv_row pij theta n u vs c") auto
    with Cons.prems False have eq: "row = yuv_sentinel n # row1" "c' = c1" by auto
    note IH = Cons.IH[OF r]
    have len: "length row = length (v # vs)" using IH eq by simp
    have bnd: "c \<le> c'" "c' \<le> c + length (v # vs)" using IH eq by simp_all
    have ent: "if pij u ((v # vs) ! k) > theta then c \<le> row ! k \<and> row ! k < c'
               else row ! k = yuv_sentinel n" if "k < length (v # vs)" for k
    proof (cases k)
      case 0
      then show ?thesis using False eq by simp
    next
      case (Suc k')
      then have "k' < length vs" using that by simp
      with IH have "if pij u (vs ! k') > theta then c \<le> row1 ! k' \<and> row1 ! k' < c1
               else row1 ! k' = yuv_sentinel n" by blast
      then show ?thesis using Suc eq by (auto split: if_splits)
    qed
    have cov: "\<exists>k<length (v # vs). pij u ((v # vs) ! k) > theta \<and> row ! k = d"
      if "c \<le> d \<and> d < c'" for d
    proof -
      from that eq IH obtain k' where "k' < length vs" "pij u (vs ! k') > theta" "row1 ! k' = d" by blast
      then show ?thesis using eq by (intro exI[of _ "Suc k'"]) simp
    qed
    show ?thesis using len bnd ent cov by blast
  qed
qed

lemma yuv_rows_props:
  assumes "yuv_rows pij theta n us c = (rows, c2)"
  shows "length rows = length us \<and> c \<le> c2 \<and>
         c2 \<le> c + sum_list (map (\<lambda>u. n - (u + 4)) us) \<and>
         (\<forall>a<length us. \<forall>k<n - (us ! a + 4).
              if pij (us ! a) (us ! a + 4 + k) > theta then c \<le> rows ! a ! k \<and> rows ! a ! k < c2
              else rows ! a ! k = yuv_sentinel n) \<and>
         (\<forall>d. c \<le> d \<and> d < c2 \<longrightarrow>
              (\<exists>a<length us. \<exists>k<n - (us ! a + 4). pij (us ! a) (us ! a + 4 + k) > theta \<and> rows ! a ! k = d))"
  using assms
proof (induction us arbitrary: c rows c2)
  case Nil
  then show ?case by simp
next
  case (Cons u us)
  obtain row c1 where r1: "yuv_row pij theta n u [u + 4 ..< n] c = (row, c1)"
    by (cases "yuv_row pij theta n u [u + 4 ..< n] c") auto
  obtain rows1 c3 where r2: "yuv_rows pij theta n us c1 = (rows1, c3)"
    by (cases "yuv_rows pij theta n us c1") auto
  from Cons.prems r1 r2 have eq: "rows = row # rows1" "c2 = c3" by auto
  note R = yuv_row_props[OF r1]
  note IH = Cons.IH[OF r2]
  have Rent: "if pij u (u + 4 + k) > theta then c \<le> row ! k \<and> row ! k < c1
              else row ! k = yuv_sentinel n" if "k < n - (u + 4)" for k
  proof -
    have "k < length [u + 4 ..< n]" using that by simp
    with R have "if pij u ([u + 4 ..< n] ! k) > theta then c \<le> row ! k \<and> row ! k < c1
              else row ! k = yuv_sentinel n" by blast
    then show ?thesis using that by simp
  qed
  have Rcov: "\<exists>k<n - (u + 4). pij u (u + 4 + k) > theta \<and> row ! k = d" if "c \<le> d \<and> d < c1" for d
  proof -
    from R that obtain k where k: "k < length [u + 4 ..< n]" "pij u ([u + 4 ..< n] ! k) > theta" "row ! k = d"
      by blast
    then show ?thesis by (intro exI[of _ k]) simp
  qed
  have len: "length rows = length (u # us)" using IH eq by simp
  have bnd: "c \<le> c2" "c2 \<le> c + sum_list (map (\<lambda>u. n - (u + 4)) (u # us))"
    using IH R eq by simp_all
  have ent: "if pij ((u # us) ! a) ((u # us) ! a + 4 + k) > theta
             then c \<le> rows ! a ! k \<and> rows ! a ! k < c2 else rows ! a ! k = yuv_sentinel n"
    if "a < length (u # us)" "k < n - ((u # us) ! a + 4)" for a k
  proof (cases a)
    case 0
    then show ?thesis using Rent[of k] that eq IH by (auto split: if_splits)
  next
    case (Suc a')
    then have "a' < length us" "k < n - (us ! a' + 4)" using that by simp_all
    with IH have "if pij (us ! a') (us ! a' + 4 + k) > theta
             then c1 \<le> rows1 ! a' ! k \<and> rows1 ! a' ! k < c3 else rows1 ! a' ! k = yuv_sentinel n"
      by blast
    then show ?thesis using Suc eq R by (auto split: if_splits)
  qed
  have cov: "\<exists>a<length (u # us). \<exists>k<n - ((u # us) ! a + 4).
               pij ((u # us) ! a) ((u # us) ! a + 4 + k) > theta \<and> rows ! a ! k = d"
    if "c \<le> d \<and> d < c2" for d
  proof (cases "d < c1")
    case True
    with that Rcov obtain k where "k < n - (u + 4)" "pij u (u + 4 + k) > theta" "row ! k = d" by blast
    then show ?thesis using eq by (intro exI[of _ 0]) auto
  next
    case False
    then have "c1 \<le> d \<and> d < c3" using that eq by simp
    with IH obtain a' k where "a' < length us" "k < n - (us ! a' + 4)"
      "pij (us ! a') (us ! a' + 4 + k) > theta" "rows1 ! a' ! k = d" by blast
    then show ?thesis using eq by (intro exI[of _ "Suc a'"]) auto
  qed
  show ?case using len bnd ent cov by blast
qed

lemma pair_count_bound: "sum_list (map (\<lambda>u. n - (u + 4)) [0 ..< K]) \<le> n * n"
proof -
  have "sum_list (map (\<lambda>u. n - (u + 4)) [0 ..< K]) \<le> n * min K n"
  proof (induction K)
    case 0
    then show ?case by simp
  next
    case (Suc K)
    show ?case
    proof (cases "K < n")
      case True
      then have "min (Suc K) n = Suc (min K n)" by simp
      moreover have "n - (K + 4) \<le> n" by simp
      ultimately show ?thesis using Suc by simp
    next
      case False
      then have "n - (K + 4) = 0" "min (Suc K) n = min K n" by simp_all
      then show ?thesis using Suc by simp
    qed
  qed
  also have "\<dots> \<le> n * n" by simp
  finally show ?thesis .
qed

lemma Cxip_rows_props:
  assumes "Cxip_rows ms i0 = (rows, firsts, i')"
  shows "length rows = length ms \<and> i0 \<le> i' \<and>
         (\<forall>x<length ms. \<forall>j<length (Motif_comp (ms ! x)). i0 \<le> rows ! x ! j \<and> rows ! x ! j < i') \<and>
         (\<forall>d. i0 \<le> d \<and> d < i' \<longrightarrow>
              (\<exists>x<length ms. \<exists>j<length (Motif_comp (ms ! x)). rows ! x ! j = d))"
  using assms
proof (induction ms arbitrary: i0 rows firsts i')
  case Nil
  then show ?case by simp
next
  case (Cons m ms)
  define l where "l = length (Motif_comp m)"
  obtain rows1 firsts1 i1 where r: "Cxip_rows ms (i0 + l) = (rows1, firsts1, i1)"
    by (cases "Cxip_rows ms (i0 + l)") auto
  from Cons.prems r have eq: "rows = [i0 ..< i0 + l] # rows1" "i' = i1"
    by (auto simp: l_def)
  note IH = Cons.IH[OF r]
  have len: "length rows = length (m # ms)" "i0 \<le> i'" using IH eq by simp_all
  have ent: "i0 \<le> rows ! x ! j \<and> rows ! x ! j < i'"
    if "x < length (m # ms)" "j < length (Motif_comp ((m # ms) ! x))" for x j
  proof (cases x)
    case 0
    then have "j < l" using that by (simp add: l_def)
    then show ?thesis using 0 eq IH by simp
  next
    case (Suc x')
    then have "x' < length ms" "j < length (Motif_comp (ms ! x'))" using that by simp_all
    with IH have "i0 + l \<le> rows1 ! x' ! j \<and> rows1 ! x' ! j < i1" by blast
    then show ?thesis using Suc eq by simp
  qed
  have cov: "\<exists>x<length (m # ms). \<exists>j<length (Motif_comp ((m # ms) ! x)). rows ! x ! j = d"
    if "i0 \<le> d \<and> d < i'" for d
  proof (cases "d < i0 + l")
    case True
    then have "d - i0 < l" "[i0 ..< i0 + l] ! (d - i0) = d" using that by auto
    then show ?thesis using eq by (intro exI[of _ 0] conjI exI[of _ "d - i0"]) (simp_all add: l_def)
  next
    case False
    then have "i0 + l \<le> d \<and> d < i1" using that eq by simp
    with IH obtain x' j where "x' < length ms" "j < length (Motif_comp (ms ! x'))" "rows1 ! x' ! j = d"
      by blast
    then show ?thesis using eq by (intro exI[of _ "Suc x'"]) auto
  qed
  show ?case using len ent cov by blast
qed

lemma MOIP_init_more_fields:
  "MOIP_pij (MOIP_init n pij sites theta) = pij"
  "MOIP_theta (MOIP_init n pij sites theta) = theta"
  "MOIP_n_basepair_dv (MOIP_init n pij sites theta) = snd (yuv_rows pij theta n [0 ..< uint_sub n 6] 0)"
  "MOIP_n_insertion_dv (MOIP_init n pij sites theta) = snd (snd (Cxip_rows sites 0))"
  by (simp_all add: MOIP_init_def Let_def split: prod.splits)

text \<open>
  The entries of \<open>basepair_dv_\<close> are the variables \<open>y(u, v)\<close> of the constructor, and the
  entries of \<open>insertion_dv_\<close> are the variables \<open>C(x, i)\<close>.
\<close>

lemma init_all_y:
  "basepair_dv ` {0 ..< MOIP_n_basepair_dv (MOIP_init n pij sites theta)} = all_y (MOIP_init n pij sites theta)"
proof -
  define m where "m = MOIP_init n pij sites theta"
  define K where "K = uint_sub n 6"
  obtain rows c2 where r: "yuv_rows pij theta n [0 ..< K] 0 = (rows, c2)"
    by (cases "yuv_rows pij theta n [0 ..< K] 0") auto
  note P = yuv_rows_props[OF r]
  have f: "index_of_yuv m = rows" "MOIP_n_basepair_dv m = c2" "MOIP_n m = n" "MOIP_pij m = pij"
    "MOIP_theta m = theta"
    using r by (simp_all add: m_def MOIP_init_fields MOIP_init_more_fields K_def)
  have yv: "y m u v = basepair_dv (rows ! u ! (v - 4 - u))" if "u < v" for u v
    using that by (simp add: y_def get_yuv_index_def f Let_def)
  have "basepair_dv ` {0 ..< c2} = all_y m"
  proof (intro set_eqI iffI)
    fix x assume "x \<in> basepair_dv ` {0 ..< c2}"
    then obtain d where d: "x = basepair_dv d" "d < c2" by auto
    with P obtain a k where ak: "a < length [0 ..< K]" "k < n - ([0 ..< K] ! a + 4)"
      "pij ([0 ..< K] ! a) ([0 ..< K] ! a + 4 + k) > theta" "rows ! a ! k = d" by blast
    then have a: "a < K" "[0 ..< K] ! a = a" by simp_all
    have "y m a (a + 4 + k) = basepair_dv d" using yv[of a "a + 4 + k"] ak(4) by simp
    moreover have "a < uint_sub (MOIP_n m) 6" "a + 4 \<le> a + 4 + k" "a + 4 + k < MOIP_n m"
      "MOIP_pij m a (a + 4 + k) > MOIP_theta m"
      using a ak unfolding f K_def by simp_all
    ultimately have "\<exists>u v. basepair_dv d = y m u v \<and> u < uint_sub (MOIP_n m) 6 \<and> u + 4 \<le> v \<and>
        v < MOIP_n m \<and> MOIP_pij m u v > MOIP_theta m"
      by (intro exI[of _ a] exI[of _ "a + 4 + k"]) simp
    then show "x \<in> all_y m" unfolding all_y_def d(1) by simp
  next
    fix x assume "x \<in> all_y m"
    then obtain u v where uv: "x = y m u v" "u < K" "u + 4 \<le> v" "v < n" "pij u v > theta"
      unfolding all_y_def f K_def by blast
    define k where "k = v - 4 - u"
    have k: "k < n - (u + 4)" "u + 4 + k = v" using uv by (simp_all add: k_def)
    have "u < length [0 ..< K]" "[0 ..< K] ! u = u" using uv by simp_all
    with P k uv(5) have "rows ! u ! k < c2"
      by (metis (no_types, lifting))
    moreover have "x = basepair_dv (rows ! u ! k)" using uv yv[of u v] by (simp add: k_def)
    ultimately show "x \<in> basepair_dv ` {0 ..< c2}" by simp
  qed
  then show ?thesis unfolding f m_def[symmetric] by simp
qed

lemma init_all_C:
  "insertion_dv ` {0 ..< MOIP_n_insertion_dv (MOIP_init n pij sites theta)} = all_C (MOIP_init n pij sites theta)"
proof -
  define m where "m = MOIP_init n pij sites theta"
  obtain rows firsts i' where r: "Cxip_rows sites 0 = (rows, firsts, i')"
    by (cases "Cxip_rows sites 0") auto
  note P = Cxip_rows_props[OF r]
  have f: "index_of_Cxip m = rows" "MOIP_n_insertion_dv m = i'" "MOIP_insertion_sites m = sites"
    using r by (simp_all add: m_def MOIP_init_fields MOIP_init_more_fields)
  have "insertion_dv ` {0 ..< i'} = all_C m"
  proof (intro set_eqI iffI)
    fix x assume "x \<in> insertion_dv ` {0 ..< i'}"
    then obtain d where d: "x = insertion_dv d" "d < i'" by auto
    with P obtain s j where "s < length sites" "j < length (Motif_comp (sites ! s))" "rows ! s ! j = d"
      by (metis le0)
    then have "\<exists>s j. insertion_dv d = C m s j \<and> s < length (MOIP_insertion_sites m) \<and>
        j < length (Motif_comp (MOIP_insertion_sites m ! s))"
      unfolding f C_def get_Cpxi_index_def by (intro exI[of _ s] exI[of _ j]) simp
    then show "x \<in> all_C m" unfolding all_C_def d(1) by simp
  next
    fix x assume "x \<in> all_C m"
    then obtain s j where sj: "x = C m s j" "s < length sites" "j < length (Motif_comp (sites ! s))"
      unfolding all_C_def f by blast
    with P have "rows ! s ! j < i'" by blast
    then show "x \<in> insertion_dv ` {0 ..< i'}"
      using sj(1) by (simp add: C_def get_Cpxi_index_def f)
  qed
  then show ?thesis unfolding f m_def[symmetric] by simp
qed

subsection \<open>The forbid clause\<close>


lemma forbid_step_cases:
  "forbid_step a c x = (if a x then expr_plus c (expr_one_minus x) else expr_plus c (expr_var x))"
  by (simp add: forbid_step_def getValue_def)

lemma getValue_expr_plus:
  "getValue_expr a (expr_plus e f) = getValue_expr a e + getValue_expr a f"
  by (simp add: getValue_expr_def expr_plus_def)

lemma getValue_expr_simps:
  "getValue_expr a (expr_num c) = c"
  "getValue_expr a (expr_var x) = getValue a x"
  "getValue_expr a (expr_one_minus x) = 1 - getValue a x"
  "getValue_expr a (expr_scaled c x) = c * getValue a x"
  by (simp_all add: getValue_expr_def expr_num_def expr_var_def expr_one_minus_def expr_scaled_def)

lemma forbid_expr_fold:
  "forbid_expr m a = foldl (forbid_step a) (expr_num 0) (decision_variables m)"
  by (simp add: forbid_expr_def Let_def decision_variables_def foldl_map)

lemma forbid_fold_value:
  "getValue_expr b (foldl (forbid_step a) e xs) = getValue_expr b e + real (differing a b xs)"
proof (induction xs arbitrary: e)
  case Nil
  then show ?case by (simp add: differing_def)
next
  case (Cons x xs)
  have "getValue_expr b (forbid_step a e x) = getValue_expr b e + (if a x \<noteq> b x then 1 else 0)"
    by (simp add: forbid_step_cases getValue_expr_plus getValue_expr_simps getValue_def)
  then show ?case using Cons.IH[of "forbid_step a e x"] by (simp add: differing_def)
qed

lemma forbid_fold_terms:
  "snd (foldl (forbid_step a) e xs) = snd e @ map (\<lambda>x. (if a x then - 1 else 1, x)) xs"
  "fst (foldl (forbid_step a) e xs) = fst e + real (length (filter a xs))"
proof -
  have "snd (foldl (forbid_step a) e xs) = snd e @ map (\<lambda>x. (if a x then - 1 else 1, x)) xs \<and>
        fst (foldl (forbid_step a) e xs) = fst e + real (length (filter a xs))"
    by (induction xs arbitrary: e)
      (auto simp: forbid_step_cases expr_plus_def expr_one_minus_def expr_var_def)
  then show "snd (foldl (forbid_step a) e xs) = snd e @ map (\<lambda>x. (if a x then - 1 else 1, x)) xs"
    "fst (foldl (forbid_step a) e xs) = fst e + real (length (filter a xs))" by simp_all
qed

lemma forbid_clause_violated_iff:
  "\<not> satisfies b (forbid_clause m a) \<longleftrightarrow> (\<forall>x \<in> set (decision_variables m). b x = a x)"
proof -
  have "differing a b (decision_variables m) = 0 \<longleftrightarrow> (\<forall>x \<in> set (decision_variables m). b x = a x)"
    by (auto simp: differing_def filter_empty_conv)
  moreover have "\<not> satisfies b (forbid_clause m a) \<longleftrightarrow> differing a b (decision_variables m) = 0"
    by (simp add: forbid_clause_def forbid_expr_fold forbid_fold_value getValue_expr_simps not_le)
  ultimately show ?thesis by simp
qed

lemma distinct_decision_variables: "distinct (decision_variables m)"
  by (auto simp: decision_variables_def distinct_map inj_on_def)

lemma set_decision_variables:
  "set (decision_variables m) =
     insertion_dv ` {0 ..< MOIP_n_insertion_dv m} \<union> basepair_dv ` {0 ..< MOIP_n_basepair_dv m}"
  by (auto simp: decision_variables_def)

text \<open>What the constructor fixes stays as it is in every later state.\<close>

lemma MOIP_new_fields:
  assumes "MOIP_new n pij sites theta = Inr m0"
  shows "MOIP_n_basepair_dv m0 = MOIP_n_basepair_dv (MOIP_init n pij sites theta)"
    "MOIP_n_insertion_dv m0 = MOIP_n_insertion_dv (MOIP_init n pij sites theta)"
    "MOIP_pij m0 = pij" "MOIP_theta m0 = theta" "MOIP_n m0 = n" "MOIP_insertion_sites m0 = sites"
    "index_of_yuv m0 = index_of_yuv (MOIP_init n pij sites theta)"
    "index_of_Cxip m0 = index_of_Cxip (MOIP_init n pij sites theta)"
proof -
  from assms obtain m1 where d: "define_problem_constraints (MOIP_init n pij sites theta) = Inr m1"
    and m: "m0 = m1 \<lparr> MOIP_obj1 := build_obj1 m1, MOIP_obj2 := build_obj2 m1 \<rparr>"
    by (rule MOIP_new_Inr)
  from d obtain items where m1: "m1 = (MOIP_init n pij sites theta) \<lparr> MOIP_model := items \<rparr>"
    by (auto simp: define_problem_constraints_def Let_def split: if_splits)
  show "MOIP_n_basepair_dv m0 = MOIP_n_basepair_dv (MOIP_init n pij sites theta)"
    "MOIP_n_insertion_dv m0 = MOIP_n_insertion_dv (MOIP_init n pij sites theta)"
    "MOIP_pij m0 = pij" "MOIP_theta m0 = theta" "MOIP_n m0 = n" "MOIP_insertion_sites m0 = sites"
    "index_of_yuv m0 = index_of_yuv (MOIP_init n pij sites theta)"
    "index_of_Cxip m0 = index_of_Cxip (MOIP_init n pij sites theta)"
    unfolding m m1 by (simp_all add: MOIP_init_fields MOIP_init_more_fields)
qed

lemma state_variables:
  assumes new: "MOIP_new n pij sites theta = Inr m0"
    and m: "m = m0 \<lparr> MOIP_model := items0, MOIP_pareto := ps \<rparr>"
  shows "set (decision_variables m) = all_C m \<union> all_y m"
proof -
  define mi where "mi = MOIP_init n pij sites theta"
  note f = MOIP_new_fields[OF new, folded mi_def]
  have fi: "MOIP_pij mi = pij" "MOIP_theta mi = theta" "MOIP_n mi = n" "MOIP_insertion_sites mi = sites"
    by (simp_all add: mi_def MOIP_init_fields MOIP_init_more_fields)
  have "all_y m = all_y mi"
    unfolding all_y_def y_def get_yuv_index_def m using f fi by simp
  moreover have "all_C m = all_C mi"
    unfolding all_C_def C_def get_Cpxi_index_def m using f fi by simp
  moreover have "MOIP_n_insertion_dv m = MOIP_n_insertion_dv mi" "MOIP_n_basepair_dv m = MOIP_n_basepair_dv mi"
    unfolding m using f by simp_all
  ultimately show ?thesis
    unfolding set_decision_variables using init_all_y[of n pij sites theta] init_all_C[of n pij sites theta]
    by (simp add: mi_def)
qed

text \<open>
  A pair is allowed exactly when the constructor made a variable for it: the mark
  \<open>n * n + 1\<close> is above every number of a variable.
\<close>

lemma allowed_basepair_iff:
  assumes new: "MOIP_new n pij sites theta = Inr m0"
    and m: "m = m0 \<lparr> MOIP_model := items0, MOIP_pareto := ps \<rparr>"
    and uv: "u < v"
  shows "allowed_basepair m u v \<longleftrightarrow> u < uint_sub n 6 \<and> u + 4 \<le> v \<and> v < n \<and> pij u v > theta"
proof -
  define K where "K = uint_sub n 6"
  obtain rows c2 where r: "yuv_rows pij theta n [0 ..< K] 0 = (rows, c2)"
    by (cases "yuv_rows pij theta n [0 ..< K] 0") auto
  note P = yuv_rows_props[OF r]
  note f = MOIP_new_fields[OF new]
  have idx: "index_of_yuv m = rows" "MOIP_n m = n"
    unfolding m using f r by (simp_all add: MOIP_init_fields K_def)
  have c2: "c2 < yuv_sentinel n"
    using P pair_count_bound[of n K] by (simp add: yuv_sentinel_def)
  have ent: "rows ! u ! (v - 4 - u) \<noteq> yuv_sentinel n \<longleftrightarrow> pij u v > theta"
    if "u < K" "u + 4 \<le> v" "v < n"
  proof -
    have "u < length [0 ..< K]" "[0 ..< K] ! u = u" "v - 4 - u < n - (u + 4)" "u + 4 + (v - 4 - u) = v"
      using that by simp_all
    with P have "if pij u v > theta then rows ! u ! (v - 4 - u) < c2
                 else rows ! u ! (v - 4 - u) = yuv_sentinel n"
      by (metis (no_types, lifting))
    then show ?thesis using c2 by (auto split: if_splits)
  qed
  show ?thesis
  proof (cases "u < K \<and> u + 4 \<le> v \<and> v < n")
    case True
    then show ?thesis
      using uv ent by (simp add: allowed_basepair_def get_yuv_index_def idx Let_def K_def not_less)
        (use True in \<open>auto simp: K_def\<close>)
  next
    case False
    then show ?thesis
      using uv by (auto simp: allowed_basepair_def idx Let_def K_def)
  qed
qed

lemma all_y_allowed:
  assumes new: "MOIP_new n pij sites theta = Inr m0"
    and m: "m = m0 \<lparr> MOIP_model := items0, MOIP_pareto := ps \<rparr>"
  shows "all_y m = {y m u v |u v. u < v \<and> allowed_basepair m u v}"
proof -
  note f = MOIP_new_fields[OF new]
  have fm: "MOIP_n m = n" "MOIP_pij m = pij" "MOIP_theta m = theta" unfolding m using f by simp_all
  have "(u < uint_sub n 6 \<and> u + 4 \<le> v \<and> v < n \<and> pij u v > theta) \<longleftrightarrow> (u < v \<and> allowed_basepair m u v)"
    for u v
    using allowed_basepair_iff[OF new m, of u v] by (cases "u < v") auto
  then show ?thesis unfolding all_y_def fm by simp
qed

text \<open>
  Claim C3. \<open>m\<close> is any state of a \<open>MOIP\<close> that the constructor has built: later calls
  change \<open>model_\<close> and \<open>pareto_\<close> only. When the solver returns the solution \<open>xhat\<close> for the
  model with the objective and the bounds of the call, \<open>solve_objective\<close> leaves the
  model with exactly one more item, the forbid clause \<open>c >= 1\<close> of \<open>xhat\<close>. The expression
  \<open>c\<close> has one term for each variable \<open>C(x, i)\<close> and \<open>y(u, v)\<close> of the constructor and no
  other term; the term of a variable is \<open>1 - x\<close> when \<open>xhat\<close> sets it and \<open>x\<close> otherwise. A
  solution violates the clause exactly when it agrees with \<open>xhat\<close> on every one of these
  variables; hence no solver that respects the model returns \<open>xhat\<close> again for a model
  that holds the clause.
\<close>

theorem C3_forbid_clause:
  assumes new: "MOIP_new n pij sites theta = Inr m0"
    and m: "m = m0 \<lparr> MOIP_model := items0, MOIP_pareto := ps \<rparr>"
    and k: "k = 1 \<or> k = 2"
    and sol: "cplex (MOIP_model m @ [solve_obj m k, solve_bounds m k lo hi]) = Some xhat"
  shows "(\<exists>s. solve_objective cplex m k lo hi =
            Inr (s, m \<lparr> MOIP_model := MOIP_model m @ [forbid_clause m xhat] \<rparr>)) \<and>
         forbid_clause m xhat = IloGe (forbid_expr m xhat) (expr_num 1) \<and>
         distinct (map snd (snd (forbid_expr m xhat))) \<and>
         set (map snd (snd (forbid_expr m xhat))) = all_C m \<union> all_y m \<and>
         (\<forall>t \<in> set (snd (forbid_expr m xhat)). fst t = (if xhat (snd t) then - 1 else 1)) \<and>
         fst (forbid_expr m xhat) = real (card {x \<in> all_C m \<union> all_y m. xhat x}) \<and>
         (\<forall>a. \<not> satisfies a (forbid_clause m xhat) \<longleftrightarrow> (\<forall>x \<in> all_C m \<union> all_y m. a x = xhat x)) \<and>
         (\<forall>solver items a.
             respects_model solver \<and> forbid_clause m xhat \<in> set items \<and> solver items = Some a
             \<longrightarrow> (\<exists>x \<in> all_C m \<union> all_y m. a x \<noteq> xhat x))"
proof -
  define xs where "xs = decision_variables m"
  have vars: "set xs = all_C m \<union> all_y m"
    unfolding xs_def by (rule state_variables[OF new m])
  have dist: "distinct xs" unfolding xs_def by (rule distinct_decision_variables)
  have terms: "snd (forbid_expr m xhat) = map (\<lambda>x. (if xhat x then - 1 else 1, x)) xs"
    and const: "fst (forbid_expr m xhat) = real (length (filter xhat xs))"
    unfolding forbid_expr_fold forbid_fold_terms xs_def by (simp_all add: expr_num_def)
  have 1: "\<exists>s. solve_objective cplex m k lo hi =
            Inr (s, m \<lparr> MOIP_model := MOIP_model m @ [forbid_clause m xhat] \<rparr>)"
    using solve_objective_solved[of k cplex m lo hi xhat] k sol by blast
  have 2: "forbid_clause m xhat = IloGe (forbid_expr m xhat) (expr_num 1)"
    by (simp add: forbid_clause_def)
  have 3: "distinct (map snd (snd (forbid_expr m xhat)))"
    unfolding terms using dist by (simp add: comp_def)
  have 4: "set (map snd (snd (forbid_expr m xhat))) = all_C m \<union> all_y m"
    unfolding terms using vars by (simp add: comp_def)
  have 5: "\<forall>t \<in> set (snd (forbid_expr m xhat)). fst t = (if xhat (snd t) then - 1 else 1)"
    unfolding terms by auto
  have "{x \<in> all_C m \<union> all_y m. xhat x} = set (filter xhat xs)" using vars by auto
  moreover have "card (set (filter xhat xs)) = length (filter xhat xs)"
    by (rule distinct_card) (use dist in simp)
  ultimately have "card {x \<in> all_C m \<union> all_y m. xhat x} = length (filter xhat xs)"
    by (simp only:)
  then have 6: "fst (forbid_expr m xhat) = real (card {x \<in> all_C m \<union> all_y m. xhat x})"
    using const by simp
  have 7: "\<not> satisfies a (forbid_clause m xhat) \<longleftrightarrow> (\<forall>x \<in> all_C m \<union> all_y m. a x = xhat x)" for a
    using forbid_clause_violated_iff[of a m xhat] vars by (simp add: xs_def)
  have 8: "\<exists>x \<in> all_C m \<union> all_y m. a x \<noteq> xhat x"
    if "respects_model solver \<and> forbid_clause m xhat \<in> set items \<and> solver items = Some a"
    for solver items a
  proof -
    from that have "feasible items a" by (simp add: respects_model_def)
    with that have "satisfies a (forbid_clause m xhat)"
      by (auto simp: feasible_def list_all_iff)
    then show ?thesis using 7[of a] by blast
  qed
  show ?thesis
  proof (intro conjI allI impI)
    show "\<exists>s. solve_objective cplex m k lo hi =
            Inr (s, m \<lparr> MOIP_model := MOIP_model m @ [forbid_clause m xhat] \<rparr>)" by (rule 1)
    show "forbid_clause m xhat = IloGe (forbid_expr m xhat) (expr_num 1)" by (rule 2)
    show "distinct (map snd (snd (forbid_expr m xhat)))" by (rule 3)
    show "set (map snd (snd (forbid_expr m xhat))) = all_C m \<union> all_y m" by (rule 4)
    show "\<forall>t \<in> set (snd (forbid_expr m xhat)). fst t = (if xhat (snd t) then - 1 else 1)" by (rule 5)
    show "fst (forbid_expr m xhat) = real (card {x \<in> all_C m \<union> all_y m. xhat x})" by (rule 6)
    show "\<not> satisfies a (forbid_clause m xhat) \<longleftrightarrow> (\<forall>x \<in> all_C m \<union> all_y m. a x = xhat x)" for a
      by (rule 7)
    show "\<exists>x \<in> all_C m \<union> all_y m. a x \<noteq> xhat x"
      if "respects_model solver \<and> forbid_clause m xhat \<in> set items \<and> solver items = Some a"
      for solver items a
      using that by (rule 8)
  qed
qed

text \<open>
  On the instance: the first call returns the two stacked pairs, and the clause has
  the three terms \<open>C(0, 0)\<close>, \<open>1 - y(0, 7)\<close> and \<open>1 - y(1, 6)\<close>.
\<close>

theorem C3_forbid_clause_witness:
  "MOIP_new 8 pij8 [site8] 0.1 = Inr moip8 \<and>
   moip8 = moip8 \<lparr> MOIP_model := MOIP_model moip8, MOIP_pareto := [] \<rparr> \<and>
   ((2::int) = 1 \<or> (2::int) = 2) \<and>
   cplex_enum vars8 (MOIP_model moip8 @ [solve_obj moip8 2, solve_bounds moip8 2 0 20]) =
     Some (sol_of [basepair_dv 0, basepair_dv 1]) \<and>
   (\<exists>s. solve_objective (cplex_enum vars8) moip8 2 0 20 =
      Inr (s, moip8 \<lparr> MOIP_model := MOIP_model moip8 @
                 [forbid_clause moip8 (sol_of [basepair_dv 0, basepair_dv 1])] \<rparr>)) \<and>
   set (map snd (snd (forbid_expr moip8 (sol_of [basepair_dv 0, basepair_dv 1])))) =
     all_C moip8 \<union> all_y moip8 \<and>
   snd (forbid_expr moip8 (sol_of [basepair_dv 0, basepair_dv 1])) =
     [(1, insertion_dv 0), (- 1, basepair_dv 0), (- 1, basepair_dv 1)] \<and>
   \<not> satisfies (sol_of [basepair_dv 0, basepair_dv 1])
       (forbid_clause moip8 (sol_of [basepair_dv 0, basepair_dv 1])) \<and>
   respects_model (cplex_enum vars8)"
proof -
  have c: "cplex_enum vars8 (MOIP_model moip8 @ [solve_obj moip8 2, solve_bounds moip8 2 0 20]) =
     Some (sol_of [basepair_dv 0, basepair_dv 1])"
    by (simp add: cplex_enum_def choice8)
  have k: "(2::int) = 1 \<or> (2::int) = 2" by simp
  have m: "moip8 = moip8 \<lparr> MOIP_model := MOIP_model moip8, MOIP_pareto := [] \<rparr>"
    by (simp add: moip8_def)
  have e: "snd (forbid_expr moip8 (sol_of [basepair_dv 0, basepair_dv 1])) =
     [(1, insertion_dv 0), (- 1, basepair_dv 0), (- 1, basepair_dv 1)]"
    by (simp add: forbid_expr_def Let_def forbid_step_cases moip8_def sol_of_def upt_num
        expr_plus_def expr_num_def expr_var_def expr_one_minus_def)
  from C3_forbid_clause[where k = 2 and cplex = "cplex_enum vars8" and m = moip8 and lo = 0
      and hi = 20 and xhat = "sol_of [basepair_dv 0, basepair_dv 1]", OF MOIP_new_8 m k c]
  have "(\<exists>s. solve_objective (cplex_enum vars8) moip8 2 0 20 =
      Inr (s, moip8 \<lparr> MOIP_model := MOIP_model moip8 @
                 [forbid_clause moip8 (sol_of [basepair_dv 0, basepair_dv 1])] \<rparr>))"
    and "set (map snd (snd (forbid_expr moip8 (sol_of [basepair_dv 0, basepair_dv 1])))) =
     all_C moip8 \<union> all_y moip8"
    and "\<not> satisfies (sol_of [basepair_dv 0, basepair_dv 1])
       (forbid_clause moip8 (sol_of [basepair_dv 0, basepair_dv 1]))"
    by auto
  with k c m e MOIP_new_8 cplex_enum_respects show ?thesis by blast
qed

end
